theory Spec2Isabelle
  imports Complex_Main "HOL-Library.Word" "HOL-Library.Product_Lexorder" "HOL-Library.AList"
begin

unbundle bit_operations_syntax

section \<open>The mask head of detectron2/modeling/roi\_heads/mask\_head.py\<close>

text \<open>
  Floating-point tensors are modelled over the reals: a float is a \<^typ>\<open>real\<close>, and the
  two places where the source can produce a NaN (\<open>torch.sqrt\<close> of a negative number, and
  the mean of an empty tensor) are written out as \<open>None\<close> of \<^typ>\<open>real option\<close>.
  Rounding is not modelled. Devices (\<open>.to(device="cuda")\<close>) are not modelled. Class
  indices are natural numbers.
\<close>

subsection \<open>Boxes and intersection over union\<close>

text \<open>A box is the array \<open>(x1, y1, x2, y2)\<close>; the source reads it by index 0 to 3.\<close>

type_synonym box = "real \<times> real \<times> real \<times> real"

definition bb_intersection_over_union :: "box \<Rightarrow> box \<Rightarrow> real" where
  "bb_intersection_over_union boxA boxB =
     (case boxA of (a0, a1, a2, a3) \<Rightarrow>
      case boxB of (b0, b1, b2, b3) \<Rightarrow>
        let xA = max a0 b0;
            yA = max a1 b1;
            xB = min a2 b2;
            yB = min a3 b3;
            interArea = \<bar>max (xB - xA) 0 * max (yB - yA) 0\<bar>
        in if interArea = 0 then 0
           else
             let boxAArea = \<bar>(a2 - a0) * (a3 - a1)\<bar>;
                 boxBArea = \<bar>(b2 - b0) * (b3 - b1)\<bar>
             in interArea / (boxAArea + boxBArea - interArea))"

text \<open>
  Vocabulary of the specification for boxes: a well-formed box has its first corner
  below and left of its second corner; its area is width times height; two boxes are
  disjoint when a vertical or a horizontal line separates them.
\<close>

definition is_box :: "box \<Rightarrow> bool" where
  "is_box b = (case b of (x1, y1, x2, y2) \<Rightarrow> x1 \<le> x2 \<and> y1 \<le> y2)"

definition box_area :: "box \<Rightarrow> real" where
  "box_area b = (case b of (x1, y1, x2, y2) \<Rightarrow> (x2 - x1) * (y2 - y1))"

definition boxes_disjoint :: "box \<Rightarrow> box \<Rightarrow> bool" where
  "boxes_disjoint boxA boxB =
     (case boxA of (a0, a1, a2, a3) \<Rightarrow>
      case boxB of (b0, b1, b2, b3) \<Rightarrow>
        a2 \<le> b0 \<or> b2 \<le> a0 \<or> a3 \<le> b1 \<or> b3 \<le> a1)"

subsection \<open>The overlap-weight transform\<close>

text \<open>\<open>torch.sqrt\<close>: NaN (here \<open>None\<close>) on a negative argument.\<close>

definition torch_sqrt :: "real \<Rightarrow> real option" where
  "torch_sqrt x = (if x < 0 then None else Some (sqrt x))"

text \<open>
  \<open>quad\<close> first replaces \<open>c\<close> by \<open>-2 * c\<close>, then takes the maximum of the two roots
  \<open>(1 \<plusminus> sqrt (1 - 4 * c)) / 2\<close>. A NaN root makes the maximum NaN.
\<close>

definition quad :: "real \<Rightarrow> real option" where
  "quad c0 =
     (let c = - 2 * c0 in
      case torch_sqrt (1 - 4 * c) of
        None \<Rightarrow> None
      | Some r \<Rightarrow> Some (max ((1 + r) / 2) ((1 - r) / 2)))"

text \<open>The argument that \<open>quad\<close> passes to \<open>torch.sqrt\<close>, for a raw count \<open>c0\<close>.\<close>

definition quad_radicand :: "real \<Rightarrow> real" where
  "quad_radicand c0 = (let c = - 2 * c0 in 1 - 4 * c)"

subsection \<open>Errors and tensors\<close>

text \<open>Every exception the modelled code can raise is a value; \<open>Inl\<close> carries it.\<close>

datatype error =
  AssertionError | AttributeError | IndexError | NotImplementedError | RuntimeError | ValueError

definition and_then :: "error + 'a \<Rightarrow> ('a \<Rightarrow> error + 'b) \<Rightarrow> error + 'b" where
  "and_then m f = (case m of Inl e \<Rightarrow> Inl e | Inr x \<Rightarrow> f x)"

fun map_err :: "('a \<Rightarrow> error + 'b) \<Rightarrow> 'a list \<Rightarrow> error + 'b list" where
  "map_err f [] = Inr []"
| "map_err f (x # xs) =
     and_then (f x) (\<lambda>y. and_then (map_err f xs) (\<lambda>ys. Inr (y # ys)))"

text \<open>
  A grid is a list of rows, a volume a list of grids (one per instance). The logits
  tensor of shape \<open>(B, C, H, W)\<close> carries its sizes, which the source reads even when
  \<open>B = 0\<close>; \<open>elems t ! n ! c ! i ! j\<close> is one logit.
\<close>

type_synonym 'a grid = "'a list list"
type_synonym 'a vol = "'a list list list"

record tensor4 =
  dim0 :: nat
  dim1 :: nat
  dim2 :: nat
  dim3 :: nat
  elems :: "real vol list"

definition wf_tensor4 :: "tensor4 \<Rightarrow> bool" where
  "wf_tensor4 t =
     (length (elems t) = dim0 t \<and>
      (\<forall>r\<in>set (elems t). length r = dim1 t \<and>
         (\<forall>g\<in>set r. length g = dim2 t \<and> (\<forall>row\<in>set g. length row = dim3 t))))"

text \<open>\<open>torch.cat\<close> along dimension 0 refuses an empty list of tensors.\<close>

definition torch_cat :: "'a list list \<Rightarrow> error + 'a list" where
  "torch_cat tensors = (if tensors = [] then Inl RuntimeError else Inr (concat tensors))"

text \<open>\<open>detectron2.layers.cat\<close>: a single tensor is returned as it is, else \<open>torch.cat\<close>.\<close>

definition cat :: "'a list list \<Rightarrow> error + 'a list" where
  "cat tensors = (case tensors of [x] \<Rightarrow> Inr x | _ \<Rightarrow> torch_cat tensors)"

text \<open>
  Indexing \<open>pred_mask_logits[indices, classes]\<close> with two index tensors: the two are
  broadcast against each other, and every class index must be below the channel count.
\<close>

definition broadcast_indices :: "nat list \<Rightarrow> nat list \<Rightarrow> error + (nat \<times> nat) list" where
  "broadcast_indices xs ys =
     (if length xs = length ys then Inr (zip xs ys)
      else case xs of [x] \<Rightarrow> Inr (map (Pair x) ys)
      | _ \<Rightarrow> (case ys of [y] \<Rightarrow> Inr (map (\<lambda>x. (x, y)) xs) | _ \<Rightarrow> Inl IndexError))"

definition index_classes :: "tensor4 \<Rightarrow> nat list \<Rightarrow> error + real vol" where
  "index_classes t classes =
     (let indices = [0..<dim0 t] in
      and_then (broadcast_indices indices classes) (\<lambda>pairs.
        if \<forall>p\<in>set pairs. snd p < dim1 t
        then Inr (map (\<lambda>p. elems t ! fst p ! snd p) pairs)
        else Inl IndexError))"

subsection \<open>Instance records\<close>

text \<open>
  Modelled from the spec: the instance record (class \<open>Instances\<close>, which the source file
  imports and does not define) holds named per-instance fields: classes, boxes, polygon
  masks, scores, and the soft masks attached at inference. Its length is the length
  of its first field, reading an absent field fails, and setting a field checks the
  length of the new value against the record's.
\<close>

type_synonym polygon = "real list"

datatype field =
  IntField "nat list"
| BoxField "box list"
| PolyField "polygon list list"
| FloatField "real list"
| MaskField "real vol list"

fun field_len :: "field \<Rightarrow> nat" where
  "field_len (IntField xs) = length xs"
| "field_len (BoxField xs) = length xs"
| "field_len (PolyField xs) = length xs"
| "field_len (FloatField xs) = length xs"
| "field_len (MaskField xs) = length xs"

record instances =
  image_size :: "nat \<times> nat"
  inst_fields :: "(string \<times> field) list"

definition len_instances :: "instances \<Rightarrow> error + nat" where
  "len_instances I =
     (case inst_fields I of [] \<Rightarrow> Inl NotImplementedError | kv # _ \<Rightarrow> Inr (field_len (snd kv)))"

definition get_ints :: "instances \<Rightarrow> string \<Rightarrow> error + nat list" where
  "get_ints I name =
     (case map_of (inst_fields I) name of Some (IntField xs) \<Rightarrow> Inr xs | _ \<Rightarrow> Inl AttributeError)"

definition get_boxes :: "instances \<Rightarrow> string \<Rightarrow> error + box list" where
  "get_boxes I name =
     (case map_of (inst_fields I) name of Some (BoxField xs) \<Rightarrow> Inr xs | _ \<Rightarrow> Inl AttributeError)"

definition get_polys :: "instances \<Rightarrow> string \<Rightarrow> error + polygon list list" where
  "get_polys I name =
     (case map_of (inst_fields I) name of Some (PolyField xs) \<Rightarrow> Inr xs | _ \<Rightarrow> Inl AttributeError)"

definition set_field :: "instances \<Rightarrow> string \<Rightarrow> field \<Rightarrow> error + instances" where
  "set_field I name v =
     (if inst_fields I \<noteq> [] \<and> len_instances I \<noteq> Inr (field_len v) then Inl AssertionError
      else Inr (I\<lparr>inst_fields := AList.update name v (inst_fields I)\<rparr>))"

text \<open>The invariant that \<open>set_field\<close> maintains: all fields have one length.\<close>

definition wf_instances :: "instances \<Rightarrow> bool" where
  "wf_instances I = (\<forall>kv\<in>set (inst_fields I). Inr (field_len (snd kv)) = len_instances I)"

subsection \<open>Ground-truth masks at the resolution of the head\<close>

text \<open>
  Modelled from the spec: \<open>rasterize_and_resize(polygon_or_mask, box, side_len)\<close> crops
  the ground-truth shape of one instance to a box and resamples it to a square grid of
  side \<open>side_len\<close>. The rasterizer itself is a parameter: for the polygons of an instance,
  a box and a side length it tells whether the pixel in row \<open>i\<close> and column \<open>j\<close> is
  occupied. \<open>crop_and_resize\<close> applies it to the instances and their boxes pairwise.
\<close>

type_synonym rasterizer = "polygon list \<Rightarrow> box \<Rightarrow> nat \<Rightarrow> nat \<Rightarrow> nat \<Rightarrow> bool"

definition crop_and_resize ::
    "rasterizer \<Rightarrow> polygon list list \<Rightarrow> box list \<Rightarrow> nat \<Rightarrow> bool vol" where
  "crop_and_resize R polys boxes S =
     map2 (\<lambda>p b. map (\<lambda>i. map (\<lambda>j. R p b S i j) [0..<S]) [0..<S]) polys boxes"

definition to_float :: "bool vol \<Rightarrow> real vol" where
  "to_float v = map (map (map (\<lambda>b. if b then 1 else 0))) v"

subsection \<open>Boundary pixels of one ground-truth mask\<close>

text \<open>
  \<open>cv.findContours\<close> with \<open>RETR_EXTERNAL\<close> followed by \<open>cv.drawContours\<close> with thickness
  \<open>-1\<close> paints the silhouette of the mask with the colour 1 on a zero background of
  \<open>mask_side_len\<close> rows and columns. Which pixels are painted is a parameter.
\<close>

type_synonym contour_filler = "bool grid \<Rightarrow> nat \<Rightarrow> nat \<Rightarrow> bool"

definition background :: "contour_filler \<Rightarrow> nat \<Rightarrow> bool grid \<Rightarrow> real grid" where
  "background D S m = map (\<lambda>i. map (\<lambda>j. if D m i j then 1 else 0) [0..<S]) [0..<S]"

text \<open>
  \<open>cv.dilate\<close> and \<open>cv.erode\<close> with the 3 x 3 kernel of ones: the maximum, respectively
  the minimum, over the part of the 3 x 3 window around the pixel that lies inside the
  image (the default border does not contribute). The pixel is in its own window.
\<close>

definition window :: "nat \<Rightarrow> nat \<Rightarrow> nat list" where
  "window n i = [i - 1 ..< min (i + 2) n]"

definition window_values :: "real grid \<Rightarrow> nat \<Rightarrow> nat \<Rightarrow> real list" where
  "window_values img i j =
     concat (map (\<lambda>a. map (\<lambda>b. img ! a ! b) (window (length (img ! i)) j))
                 (window (length img) i))"

definition cv_dilate :: "real grid \<Rightarrow> real grid" where
  "cv_dilate img =
     map (\<lambda>i. map (\<lambda>j. fold max (window_values img i j) (img ! i ! j))
                  [0..<length (img ! i)])
         [0..<length img]"

definition cv_erode :: "real grid \<Rightarrow> real grid" where
  "cv_erode img =
     map (\<lambda>i. map (\<lambda>j. fold min (window_values img i j) (img ! i ! j))
                  [0..<length (img ! i)])
         [0..<length img]"

text \<open>The silhouette bits under the window around a pixel, in the order of \<open>window_values\<close>.\<close>

definition window_bits :: "contour_filler \<Rightarrow> nat \<Rightarrow> bool grid \<Rightarrow> nat \<Rightarrow> nat \<Rightarrow> bool list" where
  "window_bits D S m i j = concat (map (\<lambda>a. map (\<lambda>b. D m a b) (window S j)) (window S i))"

text \<open>\<open>.astype(np.uint8)\<close> truncates towards zero and keeps the low eight bits.\<close>

definition astype_uint8 :: "real grid \<Rightarrow> 8 word grid" where
  "astype_uint8 g = map (map (\<lambda>x. word_of_int (if x < 0 then \<lceil>x\<rceil> else \<lfloor>x\<rfloor>))) g"

definition bound_pixels :: "contour_filler \<Rightarrow> nat \<Rightarrow> bool grid \<Rightarrow> 8 word grid" where
  "bound_pixels D S m =
     (let bg = background D S m;
          dilation = astype_uint8 (cv_dilate bg);
          erosion = astype_uint8 (cv_erode bg)
      in map2 (map2 (XOR)) dilation erosion)"

text \<open>The hyperparameter of the source, and the conversion of the band to weights.\<close>

definition BNDRY_WT :: real where
  "BNDRY_WT = 0"

definition boundary_where :: "8 word vol \<Rightarrow> real vol" where
  "boundary_where stacked = map (map (map (\<lambda>p. if p = 1 then 1 * BNDRY_WT else 1))) stacked"

text \<open>
  Vocabulary of the specification for the boundary band of a silhouette \<open>sil\<close> on an
  \<open>S x S\<close> grid: the 3 x 3 dilation holds at a pixel when some pixel of the grid at
  distance at most one in each coordinate is on the silhouette, the 3 x 3 erosion when
  all of them are; the band is the exclusive-or of the two.
\<close>

definition near :: "nat \<Rightarrow> nat \<Rightarrow> bool" where
  "near a i = (a \<le> i + 1 \<and> i \<le> a + 1)"

definition dilated :: "(nat \<Rightarrow> nat \<Rightarrow> bool) \<Rightarrow> nat \<Rightarrow> nat \<Rightarrow> nat \<Rightarrow> bool" where
  "dilated sil S i j =
     (\<exists>a\<in>set [0..<S]. \<exists>b\<in>set [0..<S]. near a i \<and> near b j \<and> sil a b)"

definition eroded :: "(nat \<Rightarrow> nat \<Rightarrow> bool) \<Rightarrow> nat \<Rightarrow> nat \<Rightarrow> nat \<Rightarrow> bool" where
  "eroded sil S i j =
     (\<forall>a\<in>set [0..<S]. \<forall>b\<in>set [0..<S]. near a i \<and> near b j \<longrightarrow> sil a b)"

definition boundary_band :: "(nat \<Rightarrow> nat \<Rightarrow> bool) \<Rightarrow> nat \<Rightarrow> nat \<Rightarrow> nat \<Rightarrow> bool" where
  "boundary_band sil S i j = (dilated sil S i j \<noteq> eroded sil S i j)"

subsection \<open>Duplicate-box weights of one image\<close>

text \<open>\<open>np.unique(rows, axis=0, return_counts=True)\<close>: the sorted distinct rows and their counts.\<close>

definition np_unique :: "box list \<Rightarrow> box list \<times> nat list" where
  "np_unique rows = (let u = remdups_adj (sort rows) in (u, map (count_list rows) u))"

fun best_box_loop :: "box \<Rightarrow> box list \<Rightarrow> nat \<Rightarrow> real \<times> nat \<Rightarrow> real \<times> nat" where
  "best_box_loop gt_box [] j best = best"
| "best_box_loop gt_box (box # boxes) j best =
     (let iou = bb_intersection_over_union gt_box box
      in if fst best < iou then best_box_loop gt_box boxes (Suc j) (iou, j)
         else best_box_loop gt_box boxes (Suc j) best)"

definition best_box :: "box \<Rightarrow> box list \<Rightarrow> nat" where
  "best_box gt_box proposals = snd (best_box_loop gt_box proposals 0 (0, 0))"

text \<open>
  The tensor of shape \<open>(n, 1, 1)\<close> is kept as the list of its \<open>n\<close> scalars. Writing to a row
  that the tensor does not have raises.
\<close>

fun roi_penalty_loop ::
    "box list \<Rightarrow> (box \<times> nat) list \<Rightarrow> real list \<Rightarrow> error + real list" where
  "roi_penalty_loop proposals [] penalty = Inr penalty"
| "roi_penalty_loop proposals (bc # rest) penalty =
     (let best = best_box (fst bc) proposals
      in if best < length penalty
         then roi_penalty_loop proposals rest (penalty[best := real (snd bc)])
         else Inl IndexError)"

definition img_roi_penalty :: "nat \<Rightarrow> box list \<Rightarrow> box list \<Rightarrow> error + real list" where
  "img_roi_penalty n ins_gt_boxes proposals =
     (case np_unique ins_gt_boxes of
        (unique_boxes, roi_counts) \<Rightarrow>
          roi_penalty_loop proposals (zip unique_boxes roi_counts) (replicate n 1))"

subsection \<open>Overlap counts of one image\<close>

text \<open>
  The loop over \<open>instances_per_image.gt_masks\<close> keeps the first polygon \<open>x[0]\<close> of each
  instance the first time it is seen; an instance without a polygon raises.
\<close>

fun distinct_first_polygons :: "polygon list list \<Rightarrow> polygon list \<Rightarrow> error + polygon list" where
  "distinct_first_polygons [] seen = Inr seen"
| "distinct_first_polygons (x # xs) seen =
     (case x of
        [] \<Rightarrow> Inl IndexError
      | p # _ \<Rightarrow>
          if p \<in> set seen then distinct_first_polygons xs seen
          else distinct_first_polygons xs (seen @ [p]))"

text \<open>\<open>itertools.combinations(xs, 2)\<close>.\<close>

fun combinations2 :: "'a list \<Rightarrow> ('a \<times> 'a) list" where
  "combinations2 [] = []"
| "combinations2 (x # xs) = map (Pair x) xs @ combinations2 xs"

definition vol_mul :: "real vol \<Rightarrow> real vol \<Rightarrow> real vol" where
  "vol_mul a b = map2 (map2 (map2 (*))) a b"

definition vol_add :: "real vol \<Rightarrow> real vol \<Rightarrow> real vol" where
  "vol_add a b = map2 (map2 (map2 (+))) a b"

text \<open>
  Python's \<open>sum\<close> starts from the integer 0 and adds the tensors from the left. It is
  called on at least one tensor here; on the empty list it would return the integer 0,
  for which the empty volume stands.
\<close>

definition py_sum :: "real vol list \<Rightarrow> real vol" where
  "py_sum temp =
     (case temp of [] \<Rightarrow> [] | t # ts \<Rightarrow> foldl vol_add (map (map (map ((+) 0))) t) ts)"

definition per_ins_overlap_masks ::
    "rasterizer \<Rightarrow> nat \<Rightarrow> nat \<Rightarrow> polygon list list \<Rightarrow> box list \<Rightarrow> bool vol \<Rightarrow> error + real vol" where
  "per_ins_overlap_masks R S n polys proposals gt_masks_per_image =
     and_then (distinct_first_polygons polys []) (\<lambda>seen.
       let img_masks = map (\<lambda>p. to_float (crop_and_resize R (replicate n [p]) proposals S)) seen
       in Inr (if 1 < length img_masks
               then vol_mul (py_sum (map (\<lambda>c. vol_mul (fst c) (snd c)) (combinations2 img_masks)))
                            (to_float gt_masks_per_image)
               else map (map (map (\<lambda>_. 0))) gt_masks_per_image))"

text \<open>The final overlap weights: \<open>quad\<close> of the concatenation over the images.\<close>

definition overlap_weights :: "real vol list \<Rightarrow> error + real option vol" where
  "overlap_weights overlap_penalty =
     and_then (torch_cat overlap_penalty) (\<lambda>c. Inr (map (map (map quad)) c))"

subsection \<open>The training loss\<close>

text \<open>The lists that the loop over the images of the batch appends to.\<close>

record penalties =
  gt_classes_acc :: "nat list list"
  gt_masks_acc :: "bool vol list"
  boundary_penalty_acc :: "8 word grid list"
  roi_penalty_acc :: "real list list"
  overlap_penalty_acc :: "real vol list"

definition no_penalties :: penalties where
  "no_penalties = \<lparr>gt_classes_acc = [], gt_masks_acc = [], boundary_penalty_acc = [],
                    roi_penalty_acc = [], overlap_penalty_acc = []\<rparr>"

definition image_step ::
    "rasterizer \<Rightarrow> contour_filler \<Rightarrow> bool \<Rightarrow> nat \<Rightarrow> instances \<Rightarrow> penalties \<Rightarrow> error + penalties" where
  "image_step R D cls_agnostic_mask mask_side_len I acc =
     and_then (len_instances I) (\<lambda>n.
       if n = 0 then Inr acc
       else
         and_then (if cls_agnostic_mask then Inr (gt_classes_acc acc)
                   else and_then (get_ints I ''gt_classes'')
                          (\<lambda>c. Inr (gt_classes_acc acc @ [c]))) (\<lambda>classes.
         and_then (get_polys I ''gt_masks'') (\<lambda>polys.
         and_then (get_boxes I ''proposal_boxes'') (\<lambda>proposals.
         and_then (get_boxes I ''gt_boxes'') (\<lambda>ins_gt_boxes.
         and_then (img_roi_penalty n ins_gt_boxes proposals) (\<lambda>img_roi.
           let gt_masks_per_image = crop_and_resize R polys proposals mask_side_len
           in and_then (per_ins_overlap_masks R mask_side_len n polys proposals
                          gt_masks_per_image) (\<lambda>per_ins.
                Inr \<lparr>gt_classes_acc = classes,
                     gt_masks_acc = gt_masks_acc acc @ [gt_masks_per_image],
                     boundary_penalty_acc = boundary_penalty_acc acc
                        @ map (bound_pixels D mask_side_len) gt_masks_per_image,
                     roi_penalty_acc = roi_penalty_acc acc @ [img_roi],
                     overlap_penalty_acc = overlap_penalty_acc acc @ [per_ins]\<rparr>)))))))"

fun image_loop ::
    "rasterizer \<Rightarrow> contour_filler \<Rightarrow> bool \<Rightarrow> nat \<Rightarrow> instances list \<Rightarrow> penalties \<Rightarrow> error + penalties" where
  "image_loop R D cls_agnostic_mask mask_side_len [] acc = Inr acc"
| "image_loop R D cls_agnostic_mask mask_side_len (I # rest) acc =
     and_then (image_step R D cls_agnostic_mask mask_side_len I acc)
       (image_loop R D cls_agnostic_mask mask_side_len rest)"

text \<open>
  \<open>F.binary_cross_entropy_with_logits\<close> with \<open>reduction="none"\<close>: the target must have
  the size of the input; the loss of one element is computed in the numerically stable
  form and then multiplied by the weight, which is broadcast.
\<close>

definition bce_elem :: "real \<Rightarrow> real \<Rightarrow> real" where
  "bce_elem x y =
     (let max_val = max (- x) 0
      in (1 - y) * x + max_val + ln (exp (- max_val) + exp (- x - max_val)))"

definition bce_unweighted :: "real vol \<Rightarrow> real vol \<Rightarrow> error + real vol" where
  "bce_unweighted input target =
     (if map (map length) target \<noteq> map (map length) input then Inl ValueError
      else Inr (map2 (map2 (map2 bce_elem)) input target))"

definition weight_rows :: "real vol \<Rightarrow> real list \<Rightarrow> real vol" where
  "weight_rows loss w = map2 (\<lambda>g c. map (map (\<lambda>l. l * c)) g) loss w"

definition weight_nan :: "real vol \<Rightarrow> real option vol \<Rightarrow> real option vol" where
  "weight_nan loss w = map2 (map2 (map2 (\<lambda>l c. map_option ((*) l) c))) loss w"

text \<open>\<open>torch.mean\<close>: NaN for an empty tensor and for a tensor with a NaN element.\<close>

definition torch_mean :: "real option vol \<Rightarrow> real option" where
  "torch_mean v =
     (let xs = concat (concat v)
      in if xs = [] \<or> None \<in> set xs then None
         else Some (sum_list (map the xs) / real (length xs)))"

definition tensor_sum :: "tensor4 \<Rightarrow> real" where
  "tensor_sum t = sum_list (concat (concat (concat (elems t))))"

text \<open>
  \<open>mask_rcnn_loss\<close>. The printing, the archive of the output directory and the
  statistics sent to the event storage do not enter the returned value and are left
  out. \<open>log_vars\<close> are the three learned scalars.
\<close>

definition mask_rcnn_loss ::
    "rasterizer \<Rightarrow> contour_filler \<Rightarrow> real \<times> real \<times> real \<Rightarrow> tensor4 \<Rightarrow> instances list
       \<Rightarrow> error + real option" where
  "mask_rcnn_loss R D log_vars pred_mask_logits insts =
     (let cls_agnostic_mask = (dim1 pred_mask_logits = 1);
          mask_side_len = dim2 pred_mask_logits
      in
      if dim2 pred_mask_logits \<noteq> dim3 pred_mask_logits then Inl AssertionError
      else
      and_then (image_loop R D cls_agnostic_mask mask_side_len insts no_penalties) (\<lambda>acc.
      if boundary_penalty_acc acc = [] then Inl RuntimeError
      else
      let boundary_penalty = boundary_where (boundary_penalty_acc acc) in
      and_then (torch_cat (roi_penalty_acc acc)) (\<lambda>roi_penalty.
      and_then (overlap_weights (overlap_penalty_acc acc)) (\<lambda>overlap_penalty.
      if length (gt_masks_acc acc) = 0 then Inr (Some (tensor_sum pred_mask_logits * 0))
      else
      and_then (cat (gt_masks_acc acc)) (\<lambda>gt_masks_bool.
      and_then (if cls_agnostic_mask then Inr (map (\<lambda>r. r ! 0) (elems pred_mask_logits))
                else and_then (cat (gt_classes_acc acc)) (index_classes pred_mask_logits))
        (\<lambda>logits.
      let gt_masks = to_float gt_masks_bool in
      and_then (bce_unweighted logits gt_masks) (\<lambda>loss.
      let boundary_mask_loss = vol_mul loss boundary_penalty;
          roi_mask_loss = weight_rows loss roi_penalty;
          overlap_mask_loss = weight_nan loss overlap_penalty
      in
      case log_vars of (v0, v1, v2) \<Rightarrow>
      let precision1 = exp (- v0);
          weighted1 = map (map (map (\<lambda>l. precision1 * l + v0))) boundary_mask_loss;
          precision2 = exp (- v1);
          weighted2 = vol_add weighted1 (map (map (map (\<lambda>l. precision2 * l + v1))) roi_mask_loss);
          precision3 = exp (- v2);
          weighted3 = map2 (map2 (map2 (\<lambda>a b. map_option ((+) a) b))) weighted2
                        (map (map (map (map_option (\<lambda>l. precision3 * l + v2)))) overlap_mask_loss)
      in Inr (torch_mean weighted3))))))))"

subsection \<open>Inference\<close>

definition sigmoid :: "real \<Rightarrow> real" where
  "sigmoid x = 1 / (1 + exp (- x))"

text \<open>\<open>Tensor.split(sizes, dim=0)\<close>: the sizes must add up to the length.\<close>

fun chunks :: "'a list \<Rightarrow> nat list \<Rightarrow> 'a list list" where
  "chunks xs [] = []"
| "chunks xs (n # ns) = take n xs # chunks (drop n xs) ns"

definition torch_split :: "'a list \<Rightarrow> nat list \<Rightarrow> error + 'a list list" where
  "torch_split xs sizes =
     (if sum_list sizes \<noteq> length xs then Inl RuntimeError else Inr (chunks xs sizes))"

fun attach_masks :: "(real vol list \<times> instances) list \<Rightarrow> error + instances list" where
  "attach_masks [] = Inr []"
| "attach_masks (pr # rest) =
     and_then (set_field (snd pr) ''pred_masks'' (MaskField (fst pr))) (\<lambda>I.
       and_then (attach_masks rest) (\<lambda>Is. Inr (I # Is)))"

text \<open>
  \<open>mask_rcnn_inference\<close> changes the instance records in place and returns nothing; the
  model returns the changed records.
\<close>

definition mask_rcnn_inference :: "tensor4 \<Rightarrow> instances list \<Rightarrow> error + instances list" where
  "mask_rcnn_inference pred_mask_logits pred_instances =
     (let cls_agnostic_mask = (dim1 pred_mask_logits = 1) in
      and_then
        (if cls_agnostic_mask then Inr (map (map (map (map sigmoid))) (elems pred_mask_logits))
         else
           and_then (map_err (\<lambda>i. get_ints i ''pred_classes'') pred_instances) (\<lambda>cs.
           and_then (cat cs) (\<lambda>class_pred.
           and_then (index_classes pred_mask_logits class_pred) (\<lambda>sel.
             Inr (map (\<lambda>g. [map (map sigmoid) g]) sel)))))
        (\<lambda>mask_probs_pred.
      and_then (map_err len_instances pred_instances) (\<lambda>num_boxes_per_image.
      and_then (torch_split mask_probs_pred num_boxes_per_image) (\<lambda>split.
        attach_masks (zip split pred_instances)))))"

text \<open>
  \<open>BaseMaskRCNNHead.forward\<close>. The layers of the network are a parameter: they turn
  the region features into the logits tensor.
\<close>

datatype forward_result = Losses "real option" | Predictions "instances list"

definition forward ::
    "('x \<Rightarrow> tensor4) \<Rightarrow> bool \<Rightarrow> rasterizer \<Rightarrow> contour_filler \<Rightarrow> real \<times> real \<times> real
       \<Rightarrow> 'x \<Rightarrow> instances list \<Rightarrow> error + forward_result" where
  "forward layers training R D log_vars x insts =
     (let x' = layers x in
      if training then and_then (mask_rcnn_loss R D log_vars x' insts) (\<lambda>l. Inr (Losses l))
      else and_then (mask_rcnn_inference x' insts) (\<lambda>out. Inr (Predictions out)))"

text \<open>An image without foreground instances: every field of its record is empty.\<close>

definition empty_instances :: "nat \<times> nat \<Rightarrow> instances" where
  "empty_instances sz =
     \<lparr>image_size = sz,
      inst_fields = [(''proposal_boxes'', BoxField []), (''gt_classes'', IntField []),
                     (''gt_boxes'', BoxField []), (''gt_masks'', PolyField [])]\<rparr>"

subsection \<open>Vocabulary for the statements about whole batches\<close>

text \<open>The length of a record and an integer field of it, where they exist.\<close>

definition the_len :: "instances \<Rightarrow> nat" where
  "the_len I = (case len_instances I of Inr n \<Rightarrow> n | Inl _ \<Rightarrow> 0)"

definition the_ints :: "instances \<Rightarrow> string \<Rightarrow> nat list" where
  "the_ints I name = (case get_ints I name of Inr xs \<Rightarrow> xs | Inl _ \<Rightarrow> [])"

text \<open>
  The soft mask of shape \<open>(1, H, W)\<close> for row \<open>g\<close> of the logits at channel \<open>c\<close>, and the
  masks expected for image \<open>k\<close> of a batch: the rows of the logits are laid out image
  after image, and the channel is 0 for class-agnostic logits and the predicted class of
  the instance otherwise.
\<close>

definition soft_mask :: "tensor4 \<Rightarrow> nat \<Rightarrow> nat \<Rightarrow> real vol" where
  "soft_mask t g c = [map (map sigmoid) (elems t ! g ! c)]"

definition row_offset :: "instances list \<Rightarrow> nat \<Rightarrow> nat" where
  "row_offset insts k = sum_list (map the_len (take k insts))"

definition expected_pred_masks :: "tensor4 \<Rightarrow> instances list \<Rightarrow> nat \<Rightarrow> real vol list" where
  "expected_pred_masks t insts k =
     map (\<lambda>m. soft_mask t (row_offset insts k + m)
                 (if dim1 t = 1 then 0 else the_ints (insts ! k) ''pred_classes'' ! m))
         [0..<the_len (insts ! k)]"

text \<open>
  The input contract of \<open>mask_rcnn_inference\<close>: a well-formed logits tensor with one row
  per instance of the batch, records with at least one field, and, for class-specific
  logits, at least one image and a predicted class below the number of channels for
  every instance.
\<close>

definition inference_inputs_ok :: "tensor4 \<Rightarrow> instances list \<Rightarrow> bool" where
  "inference_inputs_ok t insts =
     (wf_tensor4 t \<and>
      (\<forall>I\<in>set insts. wf_instances I \<and> inst_fields I \<noteq> []) \<and>
      sum_list (map the_len insts) = dim0 t \<and>
      (dim1 t \<noteq> 1 \<longrightarrow>
         insts \<noteq> [] \<and>
         (\<forall>I\<in>set insts.
            case get_ints I ''pred_classes'' of
              Inr cls \<Rightarrow> \<forall>c\<in>set cls. c < dim1 t
            | Inl _ \<Rightarrow> False)))"

definition the_boxes :: "instances \<Rightarrow> string \<Rightarrow> box list" where
  "the_boxes I name = (case get_boxes I name of Inr xs \<Rightarrow> xs | Inl _ \<Rightarrow> [])"

definition the_polys :: "instances \<Rightarrow> string \<Rightarrow> polygon list list" where
  "the_polys I name = (case get_polys I name of Inr xs \<Rightarrow> xs | Inl _ \<Rightarrow> [])"

text \<open>
  What one image contributes to the batch: its ground-truth masks at the resolution of
  the head, its duplicate-box weights and its raw overlap counts.
\<close>

definition image_gt_masks :: "rasterizer \<Rightarrow> nat \<Rightarrow> instances \<Rightarrow> bool vol" where
  "image_gt_masks R S I =
     crop_and_resize R (the_polys I ''gt_masks'') (the_boxes I ''proposal_boxes'') S"

definition image_roi :: "instances \<Rightarrow> real list" where
  "image_roi I =
     (case img_roi_penalty (the_len I) (the_boxes I ''gt_boxes'')
             (the_boxes I ''proposal_boxes'') of
        Inr w \<Rightarrow> w
      | Inl _ \<Rightarrow> [])"

definition image_overlap :: "rasterizer \<Rightarrow> nat \<Rightarrow> instances \<Rightarrow> real vol" where
  "image_overlap R S I =
     (case per_ins_overlap_masks R S (the_len I) (the_polys I ''gt_masks'')
             (the_boxes I ''proposal_boxes'') (image_gt_masks R S I) of
        Inr v \<Rightarrow> v
      | Inl _ \<Rightarrow> [])"

text \<open>
  The tensors of a batch that the loss terms are made of: the logits at the channel of
  each instance, the targets, and the boundary, duplicate-box and overlap weights.
\<close>

definition batch_logits :: "tensor4 \<Rightarrow> instances list \<Rightarrow> real vol" where
  "batch_logits t insts =
     map (\<lambda>g. elems t ! g !
                 (if dim1 t = 1 then 0
                  else concat (map (\<lambda>I. the_ints I ''gt_classes'') insts) ! g))
         [0..<dim0 t]"

definition batch_masks :: "rasterizer \<Rightarrow> nat \<Rightarrow> instances list \<Rightarrow> bool vol" where
  "batch_masks R S insts = concat (map (image_gt_masks R S) insts)"

definition batch_targets :: "rasterizer \<Rightarrow> nat \<Rightarrow> instances list \<Rightarrow> real vol" where
  "batch_targets R S insts = to_float (batch_masks R S insts)"

definition batch_boundary_weights ::
    "rasterizer \<Rightarrow> contour_filler \<Rightarrow> nat \<Rightarrow> instances list \<Rightarrow> real vol" where
  "batch_boundary_weights R D S insts =
     boundary_where (map (bound_pixels D S) (batch_masks R S insts))"

definition batch_roi_weights :: "instances list \<Rightarrow> real list" where
  "batch_roi_weights insts = concat (map image_roi insts)"

definition batch_overlap_weights :: "rasterizer \<Rightarrow> nat \<Rightarrow> instances list \<Rightarrow> real vol" where
  "batch_overlap_weights R S insts =
     map (map (map (\<lambda>c. (1 + sqrt (1 + 8 * c)) / 2))) (concat (map (image_overlap R S) insts))"

text \<open>
  The loss of the specification: with the three elementwise weighted binary
  cross-entropy terms over the logits \<open>X\<close> and the targets \<open>Y\<close>, the mean over all
  \<open>N * S * S\<close> elements of the combination with the log-variances.
\<close>

definition spec_loss ::
    "real \<Rightarrow> real \<Rightarrow> real \<Rightarrow> real vol \<Rightarrow> real vol \<Rightarrow> real vol \<Rightarrow> real list \<Rightarrow> real vol
       \<Rightarrow> nat \<Rightarrow> nat \<Rightarrow> real" where
  "spec_loss v0 v1 v2 X Y W0 W1 W2 N S =
     (\<Sum>n<N. \<Sum>i<S. \<Sum>j<S.
        (let L0 = W0 ! n ! i ! j * bce_elem (X ! n ! i ! j) (Y ! n ! i ! j);
             L1 = W1 ! n * bce_elem (X ! n ! i ! j) (Y ! n ! i ! j);
             L2 = W2 ! n ! i ! j * bce_elem (X ! n ! i ! j) (Y ! n ! i ! j)
         in exp (- v0) * L0 + v0 + exp (- v1) * L1 + v1 + exp (- v2) * L2 + v2))
     / real (N * S * S)"

text \<open>
  The input contract of \<open>mask_rcnn_loss\<close> for a non-empty batch: square logits of positive
  side with one row per instance, at least one instance, records that carry the four
  ground-truth fields with every instance having a polygon, and, for class-specific
  logits, ground-truth classes below the number of channels.
\<close>

definition wf_training :: "instances \<Rightarrow> bool" where
  "wf_training I =
     (wf_instances I \<and> inst_fields I \<noteq> [] \<and>
      \<not> isl (get_ints I ''gt_classes'') \<and>
      \<not> isl (get_boxes I ''gt_boxes'') \<and>
      \<not> isl (get_boxes I ''proposal_boxes'') \<and>
      \<not> isl (get_polys I ''gt_masks'') \<and>
      [] \<notin> set (the_polys I ''gt_masks''))"

definition training_inputs_ok :: "tensor4 \<Rightarrow> instances list \<Rightarrow> bool" where
  "training_inputs_ok t insts =
     (wf_tensor4 t \<and> dim2 t = dim3 t \<and> 0 < dim2 t \<and> 0 < dim0 t \<and>
      list_all wf_training insts \<and>
      sum_list (map the_len insts) = dim0 t \<and>
      (dim1 t = 1 \<or>
       list_all (\<lambda>I. list_all (\<lambda>c. c < dim1 t) (the_ints I ''gt_classes'')) insts))"

text \<open>Volumes given by a function of the instance, the row and the column.\<close>

definition tab3 :: "nat \<Rightarrow> nat \<Rightarrow> (nat \<Rightarrow> nat \<Rightarrow> nat \<Rightarrow> 'a) \<Rightarrow> 'a vol" where
  "tab3 N S f = map (\<lambda>n. map (\<lambda>i. map (\<lambda>j. f n i j) [0..<S]) [0..<S]) [0..<N]"

definition is_tab :: "('a \<Rightarrow> bool) \<Rightarrow> nat \<Rightarrow> nat \<Rightarrow> 'a vol \<Rightarrow> bool" where
  "is_tab P N S v = (\<exists>f. v = tab3 N S f \<and> (\<forall>n<N. \<forall>i<S. \<forall>j<S. P (f n i j)))"

section \<open>Properties of intersection over union\<close>

lemma iou_unfold:
  "bb_intersection_over_union (a0, a1, a2, a3) (b0, b1, b2, b3) =
     (if \<bar>max (min a2 b2 - max a0 b0) 0 * max (min a3 b3 - max a1 b1) 0\<bar> = 0 then 0
      else \<bar>max (min a2 b2 - max a0 b0) 0 * max (min a3 b3 - max a1 b1) 0\<bar> /
           (\<bar>(a2 - a0) * (a3 - a1)\<bar> + \<bar>(b2 - b0) * (b3 - b1)\<bar>
            - \<bar>max (min a2 b2 - max a0 b0) 0 * max (min a3 b3 - max a1 b1) 0\<bar>))"
  unfolding bb_intersection_over_union_def Let_def prod.case ..

lemma iou_nonneg: "0 \<le> bb_intersection_over_union boxA boxB"
proof -
  obtain a0 a1 a2 a3 where A: "boxA = (a0, a1, a2, a3)" by (cases boxA) auto
  obtain b0 b1 b2 b3 where B: "boxB = (b0, b1, b2, b3)" by (cases boxB) auto
  define w where "w = max (min a2 b2 - max a0 b0) 0"
  define h where "h = max (min a3 b3 - max a1 b1) 0"
  define areaA where "areaA = \<bar>(a2 - a0) * (a3 - a1)\<bar>"
  define areaB where "areaB = \<bar>(b2 - b0) * (b3 - b1)\<bar>"
  have wh: "0 \<le> w" "0 \<le> h" by (simp_all add: w_def h_def)
  have w1: "w \<le> \<bar>a2 - a0\<bar>" by (auto simp: w_def)
  have h1: "h \<le> \<bar>a3 - a1\<bar>" by (auto simp: h_def)
  have "w * h \<le> \<bar>a2 - a0\<bar> * \<bar>a3 - a1\<bar>"
    using wh w1 h1 by (intro mult_mono) auto
  then have le: "\<bar>w * h\<bar> \<le> areaA"
    using wh by (simp add: areaA_def abs_mult)
  have "0 \<le> areaB" by (simp add: areaB_def)
  with le have "0 \<le> areaA + areaB - \<bar>w * h\<bar>" by linarith
  then have "0 \<le> (if \<bar>w * h\<bar> = 0 then 0 else \<bar>w * h\<bar> / (areaA + areaB - \<bar>w * h\<bar>))"
    by simp
  then show ?thesis
    unfolding A B iou_unfold w_def h_def areaA_def areaB_def .
qed

lemma iou_commute:
  "bb_intersection_over_union boxA boxB = bb_intersection_over_union boxB boxA"
  by (cases boxA; cases boxB)
     (simp add: bb_intersection_over_union_def Let_def max.commute min.commute add.commute)

lemma iou_self:
  assumes "is_box boxA" "0 < box_area boxA"
  shows "bb_intersection_over_union boxA boxA = 1"
proof -
  obtain a0 a1 a2 a3 where A: "boxA = (a0, a1, a2, a3)" by (cases boxA) auto
  from assms have le: "a0 \<le> a2" "a1 \<le> a3" and pos: "0 < (a2 - a0) * (a3 - a1)"
    by (simp_all add: A is_box_def box_area_def)
  from pos le have "a0 < a2" "a1 < a3"
    by (auto simp: zero_less_mult_iff)
  then show ?thesis
    using pos by (simp add: A bb_intersection_over_union_def Let_def abs_mult)
qed

lemma iou_degenerate_left:
  assumes "box_area boxA \<le> 0"
  shows "bb_intersection_over_union boxA boxB = 0"
proof -
  obtain a0 a1 a2 a3 where A: "boxA = (a0, a1, a2, a3)" by (cases boxA) auto
  obtain b0 b1 b2 b3 where B: "boxB = (b0, b1, b2, b3)" by (cases boxB) auto
  from assms have "(a2 - a0) * (a3 - a1) \<le> 0" by (simp add: A box_area_def)
  then have "a2 \<le> a0 \<or> a3 \<le> a1"
    by (auto simp: mult_le_0_iff)
  then have "max (min a2 b2 - max a0 b0) 0 = 0 \<or> max (min a3 b3 - max a1 b1) 0 = 0"
    by auto
  then show ?thesis
    by (auto simp: A B bb_intersection_over_union_def Let_def)
qed

lemma iou_disjoint:
  assumes "boxes_disjoint boxA boxB"
  shows "bb_intersection_over_union boxA boxB = 0"
proof -
  obtain a0 a1 a2 a3 where A: "boxA = (a0, a1, a2, a3)" by (cases boxA) auto
  obtain b0 b1 b2 b3 where B: "boxB = (b0, b1, b2, b3)" by (cases boxB) auto
  from assms have "a2 \<le> b0 \<or> b2 \<le> a0 \<or> a3 \<le> b1 \<or> b3 \<le> a1"
    by (simp add: A B boxes_disjoint_def)
  then have "max (min a2 b2 - max a0 b0) 0 = 0 \<or> max (min a3 b3 - max a1 b1) 0 = 0"
    by auto
  then show ?thesis
    by (auto simp: A B bb_intersection_over_union_def Let_def)
qed

text \<open>
  Claim C8. Intersection over union is symmetric; a well-formed box of positive area
  has intersection over union 1 with itself; and the result is 0 when the two boxes are
  disjoint or one of them has non-positive area.
\<close>

theorem iou_symmetric_self_disjoint:
  "bb_intersection_over_union boxA boxB = bb_intersection_over_union boxB boxA \<and>
   (is_box boxA \<and> 0 < box_area boxA \<longrightarrow> bb_intersection_over_union boxA boxA = 1) \<and>
   (boxes_disjoint boxA boxB \<or> box_area boxA \<le> 0 \<or> box_area boxB \<le> 0
      \<longrightarrow> bb_intersection_over_union boxA boxB = 0)"
proof (intro conjI impI)
  show "bb_intersection_over_union boxA boxB = bb_intersection_over_union boxB boxA"
    by (rule iou_commute)
next
  assume "is_box boxA \<and> 0 < box_area boxA"
  then show "bb_intersection_over_union boxA boxA = 1"
    by (simp add: iou_self)
next
  assume "boxes_disjoint boxA boxB \<or> box_area boxA \<le> 0 \<or> box_area boxB \<le> 0"
  then consider "boxes_disjoint boxA boxB" | "box_area boxA \<le> 0" | "box_area boxB \<le> 0"
    by blast
  then show "bb_intersection_over_union boxA boxB = 0"
  proof cases
    case 1 then show ?thesis by (rule iou_disjoint)
  next
    case 2 then show ?thesis by (rule iou_degenerate_left)
  next
    case 3
    then have "bb_intersection_over_union boxB boxA = 0" by (rule iou_degenerate_left)
    then show ?thesis by (simp add: iou_commute)
  qed
qed

theorem iou_symmetric_self_disjoint_witness:
  "bb_intersection_over_union (0, 0, 2, 2) (1, 1, 3, 3)
     = bb_intersection_over_union (1, 1, 3, 3) (0, 0, 2, 2) \<and>
   is_box (0, 0, 2, 2) \<and> 0 < box_area (0, 0, 2, 2) \<and>
   bb_intersection_over_union (0, 0, 2, 2) (0, 0, 2, 2) = 1 \<and>
   boxes_disjoint (0, 0, 2, 2) (2, 0, 3, 1) \<and>
   bb_intersection_over_union (0, 0, 2, 2) (2, 0, 3, 1) = 0 \<and>
   box_area (1, 1, 1, 5) \<le> 0 \<and>
   bb_intersection_over_union (1, 1, 1, 5) (0, 0, 2, 2) = 0 \<and>
   bb_intersection_over_union (0, 0, 2, 2) (1, 1, 3, 3) = 1 / 7"
proof -
  have b: "is_box (0, 0, 2, 2) \<and> 0 < box_area (0, 0, 2, 2)"
    by (simp add: is_box_def box_area_def)
  have d: "boxes_disjoint (0, 0, 2, 2) (2, 0, 3, 1)"
    by (simp add: boxes_disjoint_def)
  have z: "box_area (1, 1, 1, 5) \<le> 0"
    by (simp add: box_area_def)
  have v: "bb_intersection_over_union (0, 0, 2, 2) (1, 1, 3, 3) = 1 / 7"
    by (simp add: bb_intersection_over_union_def Let_def)
  show ?thesis
    using b d z v
      iou_symmetric_self_disjoint [of "(0, 0, 2, 2)" "(1, 1, 3, 3)"]
      iou_symmetric_self_disjoint [of "(0, 0, 2, 2)" "(2, 0, 3, 1)"]
      iou_symmetric_self_disjoint [of "(1, 1, 1, 5)" "(0, 0, 2, 2)"]
    by simp
qed

section \<open>Properties of the overlap-weight transform\<close>

lemma quad_radicand_eq: "quad_radicand c = 1 + 8 * c"
  by (simp add: quad_radicand_def)

lemma quad_unfold:
  "quad c = (if quad_radicand c < 0 then None
             else Some (max ((1 + sqrt (quad_radicand c)) / 2) ((1 - sqrt (quad_radicand c)) / 2)))"
  by (simp add: quad_def quad_radicand_def torch_sqrt_def)

lemma quad_value:
  assumes "0 \<le> 1 + 8 * c"
  shows "quad c = Some ((1 + sqrt (1 + 8 * c)) / 2)"
proof -
  have "0 \<le> sqrt (1 + 8 * c)" using assms by simp
  then have "max ((1 + sqrt (1 + 8 * c)) / 2) ((1 - sqrt (1 + 8 * c)) / 2)
               = (1 + sqrt (1 + 8 * c)) / 2"
    by (simp add: max_def)
  then show ?thesis
    using assms by (simp add: quad_unfold quad_radicand_eq)
qed

lemma quad_Some_root:
  assumes "quad c = Some w"
  shows "w * w - w - 2 * c = 0" and "w' * w' - w' - 2 * c = 0 \<Longrightarrow> w' \<le> w"
proof -
  define r where "r = sqrt (1 + 8 * c)"
  have nn: "0 \<le> 1 + 8 * c"
    using assms by (simp add: quad_unfold quad_radicand_eq split: if_splits)
  then have w: "w = (1 + r) / 2"
    using assms by (simp add: quad_value r_def)
  have r0: "0 \<le> r" and r2: "r * r = 1 + 8 * c"
    using nn by (simp_all add: r_def)
  have "w * w - w - 2 * c = (r * r - 1) / 4 - 2 * c"
    by (simp add: w field_simps)
  also have "\<dots> = 0" by (simp add: r2)
  finally show "w * w - w - 2 * c = 0" .
  assume "w' * w' - w' - 2 * c = 0"
  then have "(2 * w' - 1) * (2 * w' - 1) = r * r"
    by (simp add: r2 algebra_simps)
  then have "(2 * w' - 1)\<^sup>2 \<le> r\<^sup>2"
    by (simp add: power2_eq_square)
  then have "\<bar>2 * w' - 1\<bar> \<le> \<bar>r\<bar>"
    by (simp only: abs_le_square_iff)
  then have "2 * w' - 1 \<le> r" using r0 by linarith
  then show "w' \<le> w" by (simp add: w)
qed

text \<open>
  Claim C3, as the code has it. A raw overlap count of exactly 1 is mapped to the weight
  exactly 2; the value returned for a count \<open>c\<close> is the larger root of
  \<open>w * w - w - 2 * c = 0\<close>, that is, of \<open>c = w * (w - 1) / 2\<close>.
\<close>

theorem quad_count_one_is_two:
  "quad 1 = Some 2 \<and>
   (\<forall>c w. quad c = Some w \<longrightarrow>
      w * w - w - 2 * c = 0 \<and> (\<forall>w'. w' * w' - w' - 2 * c = 0 \<longrightarrow> w' \<le> w))"
proof (intro conjI allI impI)
  have "sqrt (1 + 8 * 1) = sqrt (3\<^sup>2)" by simp
  also have "\<dots> = 3" by (simp only: real_sqrt_abs)
  finally show "quad 1 = Some 2" by (simp add: quad_value)
qed (rule quad_Some_root; assumption)+

theorem quad_count_one_is_two_witness:
  "quad 1 = Some 2 \<and> (2::real) * 2 - 2 - 2 * 1 = 0 \<and> (-1::real) \<le> 2"
  using quad_count_one_is_two by simp

text \<open>
  Claim C3, as the specification states it, fails: the weight for a raw overlap count of
  1 is not 1.
\<close>

theorem quad_count_one_is_not_one: "quad 1 \<noteq> Some 1"
proof -
  have "sqrt (1 + 8 * 1) = sqrt (3\<^sup>2)" by simp
  also have "\<dots> = 3" by (simp only: real_sqrt_abs)
  finally show ?thesis by (simp add: quad_value)
qed

text \<open>
  Claim C5, as the code has it. The argument of the square root is \<open>1 + 8 * c\<close>: it is
  negative, and the transform is NaN, exactly when \<open>c < -1/8\<close>. For every raw count
  \<open>c \<ge> 0\<close> the argument is at least 1 and the transform is defined.
\<close>

theorem quad_undefined_iff:
  "(quad_radicand c < 0 \<longleftrightarrow> c < - 1 / 8) \<and>
   (quad c = None \<longleftrightarrow> quad_radicand c < 0) \<and>
   (0 \<le> c \<longrightarrow> 1 \<le> quad_radicand c \<and> quad c \<noteq> None)"
  by (auto simp: quad_unfold quad_radicand_eq)

theorem quad_undefined_iff_witness:
  "(0::real) \<le> 1 / 4 \<and> 1 \<le> quad_radicand (1 / 4) \<and> quad (1 / 4) \<noteq> None \<and>
   (0::real) \<le> 3 \<and> 1 \<le> quad_radicand 3 \<and> quad 3 \<noteq> None \<and>
   quad_radicand (- 1) < 0 \<and> quad (- 1) = None"
  using quad_undefined_iff [of "1 / 4"] quad_undefined_iff [of 3] quad_undefined_iff [of "- 1"]
  by simp

text \<open>
  Claim C5, as the specification states it, fails: at the raw count 1, which exceeds
  0.25, the argument of the square root is 9 and the transform is defined.
\<close>

theorem quad_defined_above_quarter:
  "(0.25::real) < 1 \<and> quad_radicand 1 = 9 \<and> \<not> quad_radicand 1 < 0 \<and> quad 1 \<noteq> None"
  by (simp add: quad_unfold quad_radicand_eq)

section \<open>Duplicate-box weights\<close>

lemma best_box_loop_keep:
  assumes "\<forall>k<length props. \<not> fst best < bb_intersection_over_union b (props ! k)"
  shows "best_box_loop b props j best = best"
  using assms
proof (induction props arbitrary: j)
  case Nil
  show ?case by simp
next
  case (Cons p ps)
  from Cons.prems have "\<not> fst best < bb_intersection_over_union b ((p # ps) ! 0)"
    by blast
  then have h: "\<not> fst best < bb_intersection_over_union b p" by simp
  have "\<forall>k<length ps. \<not> fst best < bb_intersection_over_union b (ps ! k)"
  proof (intro allI impI)
    fix k assume "k < length ps"
    then have "Suc k < length (p # ps)" by simp
    with Cons.prems have "\<not> fst best < bb_intersection_over_union b ((p # ps) ! Suc k)"
      by blast
    then show "\<not> fst best < bb_intersection_over_union b (ps ! k)" by simp
  qed
  then have "best_box_loop b ps (Suc j) best = best" by (rule Cons.IH)
  with h show ?case by (simp add: Let_def)
qed

lemma best_box_loop_spec:
  assumes "best_box_loop b props j (v, i) = (v', i')"
  shows "v \<le> v' \<and> (\<forall>k<length props. bb_intersection_over_union b (props ! k) \<le> v') \<and>
         ((v' = v \<and> i' = i) \<or>
          (\<exists>d<length props. i' = j + d \<and> v < v' \<and>
             bb_intersection_over_union b (props ! d) = v' \<and>
             (\<forall>m<d. bb_intersection_over_union b (props ! m) < v')))"
  using assms
proof (induction props arbitrary: j v i)
  case Nil
  then show ?case by simp
next
  case (Cons p ps)
  define f where "f = bb_intersection_over_union b"
  define w k where "w = (if v < f p then f p else v)" and "k = (if v < f p then j else i)"
  have vw: "v \<le> w" by (simp add: w_def)
  have pw: "f p \<le> w" by (simp add: w_def)
  from Cons.prems have "best_box_loop b ps (Suc j) (w, k) = (v', i')"
    by (simp add: Let_def w_def k_def f_def split: if_splits)
  from Cons.IH [OF this]
  have ww: "w \<le> v'" and all: "\<forall>n<length ps. f (ps ! n) \<le> v'"
    and alt: "(v' = w \<and> i' = k) \<or>
          (\<exists>d<length ps. i' = Suc j + d \<and> w < v' \<and> f (ps ! d) = v' \<and>
             (\<forall>m<d. f (ps ! m) < v'))"
    by (simp_all add: f_def)
  have 1: "v \<le> v'" using vw ww by simp
  have 2: "\<forall>n<length (p # ps). f ((p # ps) ! n) \<le> v'"
  proof (intro allI impI)
    fix n assume "n < length (p # ps)"
    then show "f ((p # ps) ! n) \<le> v'"
      using all pw ww by (cases n) simp_all
  qed
  have 3: "(v' = v \<and> i' = i) \<or>
          (\<exists>d<length (p # ps). i' = j + d \<and> v < v' \<and> f ((p # ps) ! d) = v' \<and>
             (\<forall>m<d. f ((p # ps) ! m) < v'))"
    using alt
  proof
    assume a: "v' = w \<and> i' = k"
    show ?thesis
    proof (cases "v < f p")
      case True
      then have "i' = j + 0 \<and> v < v' \<and> f ((p # ps) ! 0) = v' \<and> (\<forall>m<0. f ((p # ps) ! m) < v')"
        using a by (simp add: w_def k_def)
      then show ?thesis by (intro disjI2 exI [of _ 0]) simp
    next
      case False
      then show ?thesis using a by (simp add: w_def k_def)
    qed
  next
    assume "\<exists>d<length ps. i' = Suc j + d \<and> w < v' \<and> f (ps ! d) = v' \<and>
             (\<forall>m<d. f (ps ! m) < v')"
    then obtain d where d: "d < length ps" "i' = Suc j + d" "w < v'" "f (ps ! d) = v'"
      "\<forall>m<d. f (ps ! m) < v'" by blast
    have "\<forall>m<Suc d. f ((p # ps) ! m) < v'"
    proof (intro allI impI)
      fix m assume "m < Suc d"
      then show "f ((p # ps) ! m) < v'"
        using d(3,5) pw by (cases m) simp_all
    qed
    then have "Suc d < length (p # ps) \<and> i' = j + Suc d \<and> v < v' \<and> f ((p # ps) ! Suc d) = v' \<and>
       (\<forall>m<Suc d. f ((p # ps) ! m) < v')"
      using d vw by simp
    then show ?thesis by (intro disjI2 exI [of _ "Suc d"])
  qed
  from 1 2 3 show ?case by (simp only: f_def) 
qed

lemma best_box_first_argmax:
  assumes "props \<noteq> []"
  shows "best_box b props < length props \<and>
         (\<forall>i<length props. bb_intersection_over_union b (props ! i)
                              \<le> bb_intersection_over_union b (props ! best_box b props)) \<and>
         (\<forall>i<best_box b props. bb_intersection_over_union b (props ! i)
                              < bb_intersection_over_union b (props ! best_box b props))"
proof -
  define f where "f = bb_intersection_over_union b"
  obtain v' i' where r: "best_box_loop b props 0 (0, 0) = (v', i')"
    by (cases "best_box_loop b props 0 (0, 0)") blast
  then have bb: "best_box b props = i'" by (simp add: best_box_def)
  from best_box_loop_spec [OF r]
  have le: "\<forall>k<length props. f (props ! k) \<le> v'"
    and alt: "(v' = 0 \<and> i' = 0) \<or>
          (\<exists>d<length props. i' = 0 + d \<and> 0 < v' \<and> f (props ! d) = v' \<and>
           (\<forall>m<d. f (props ! m) < v'))"
    by (simp_all add: f_def)
  have len: "0 < length props" using assms by simp
  from alt have "i' < length props \<and> (\<forall>i<length props. f (props ! i) \<le> f (props ! i')) \<and>
         (\<forall>i<i'. f (props ! i) < f (props ! i'))"
  proof
    assume z: "v' = 0 \<and> i' = 0"
    have "f (props ! k) = 0" if "k < length props" for k
    proof -
      have "f (props ! k) \<le> 0" using le z that by blast
      moreover have "0 \<le> f (props ! k)" unfolding f_def by (rule iou_nonneg)
      ultimately show ?thesis by simp
    qed
    then show ?thesis using len z by simp
  next
    assume "\<exists>d<length props. i' = 0 + d \<and> 0 < v' \<and> f (props ! d) = v' \<and>
           (\<forall>m<d. f (props ! m) < v')"
    then show ?thesis using le by auto
  qed
  then show ?thesis unfolding bb f_def by blast
qed

lemma best_box_no_overlap:
  assumes "\<forall>p\<in>set props. \<not> 0 < bb_intersection_over_union b p"
  shows "best_box b props = 0"
proof -
  have "\<forall>k<length props. \<not> fst (0::real, 0::nat) < bb_intersection_over_union b (props ! k)"
    using assms by (simp add: all_set_conv_all_nth)
  then have "best_box_loop b props 0 (0, 0) = (0, 0)"
    by (rule best_box_loop_keep)
  then show ?thesis by (simp add: best_box_def)
qed

lemma count_list_replicate_same: "count_list (replicate k b) b = k"
  by (induction k) simp_all

lemma np_unique_replicate:
  "0 < k \<Longrightarrow> np_unique (replicate k b) = ([b], [k])"
  by (simp add: np_unique_def remdups_adj_replicate count_list_replicate_same)

lemma length_roi_penalty_loop:
  "roi_penalty_loop props bcs pen = Inr out \<Longrightarrow> length out = length pen"
proof (induction bcs arbitrary: pen)
  case Nil
  then show ?case by simp
next
  case (Cons bc bcs)
  from Cons.prems have "best_box (fst bc) props < length pen"
    and "roi_penalty_loop props bcs (pen[best_box (fst bc) props := real (snd bc)]) = Inr out"
    by (simp_all add: Let_def split: if_splits)
  from Cons.IH [OF this(2)] show ?case by simp
qed

lemma roi_penalty_loop_in_range:
  assumes "props \<noteq> []" and "length props \<le> length pen"
  shows "\<exists>out. roi_penalty_loop props bcs pen = Inr out"
  using assms(2)
proof (induction bcs arbitrary: pen)
  case Nil
  show ?case by simp
next
  case (Cons bc bcs)
  from best_box_first_argmax [OF assms(1), of "fst bc"] Cons.prems
  have lt: "best_box (fst bc) props < length pen" by simp
  from Cons.prems
  have "length props \<le> length (pen[best_box (fst bc) props := real (snd bc)])" by simp
  from Cons.IH [OF this] lt show ?case by (simp add: Let_def)
qed

lemma roi_penalty_loop_snoc:
  "roi_penalty_loop props (bcs @ [bc]) pen =
     and_then (roi_penalty_loop props bcs pen) (\<lambda>p.
       if best_box (fst bc) props < length p
       then Inr (p[best_box (fst bc) props := real (snd bc)])
       else Inl IndexError)"
  by (induction bcs arbitrary: pen) (simp_all add: Let_def and_then_def)

lemma img_roi_penalty_single_box:
  assumes "0 < k" and "length props = k"
  shows "img_roi_penalty k (replicate k b) props
           = Inr ((replicate k 1)[best_box b props := real k])"
proof -
  from assms have "props \<noteq> []" by auto
  from best_box_first_argmax [OF this, of b] assms(2) have "best_box b props < k" by simp
  then show ?thesis
    using assms(1) by (simp add: img_roi_penalty_def np_unique_replicate Let_def)
qed

lemma img_roi_penalty_total:
  assumes "length props = n" and "length gtb = n"
  shows "\<exists>out. img_roi_penalty n gtb props = Inr out \<and> length out = n"
proof -
  obtain ubs counts where u: "np_unique gtb = (ubs, counts)"
    by (cases "np_unique gtb") blast
  have "\<exists>out. roi_penalty_loop props (zip ubs counts) (replicate n 1) = Inr out"
  proof (cases "n = 0")
    case True
    with assms(2) have "gtb = []" by simp
    with u have "ubs = []" by (simp add: np_unique_def)
    then show ?thesis by simp
  next
    case False
    with assms(1) have "props \<noteq> []" by auto
    then show ?thesis
      using assms(1) by (intro roi_penalty_loop_in_range) simp_all
  qed
  then obtain out where o: "roi_penalty_loop props (zip ubs counts) (replicate n 1) = Inr out"
    by blast
  from length_roi_penalty_loop [OF o] have "length out = n" by simp
  with o u show ?thesis by (simp add: img_roi_penalty_def)
qed

text \<open>
  Claim C6. In an image whose \<open>k\<close> instances all carry the same ground-truth box, the
  duplicate-box weights are \<open>k\<close> at one row and 1 at every other row; that row is the
  proposal with the highest intersection over union against the box (the first such
  row when several are equally good).
\<close>

theorem duplicate_box_weight_single_object:
  assumes "0 < k" and "length props = k"
  shows "best_box b props < k \<and>
         (\<forall>i<k. bb_intersection_over_union b (props ! i)
                   \<le> bb_intersection_over_union b (props ! best_box b props)) \<and>
         (\<forall>i<best_box b props. bb_intersection_over_union b (props ! i)
                   < bb_intersection_over_union b (props ! best_box b props)) \<and>
         (\<exists>pen. img_roi_penalty k (replicate k b) props = Inr pen \<and>
            length pen = k \<and>
            pen ! best_box b props = real k \<and>
            (\<forall>i<k. i \<noteq> best_box b props \<longrightarrow> pen ! i = 1))"
proof -
  from assms have ne: "props \<noteq> []" by auto
  note am = best_box_first_argmax [OF ne, of b, unfolded assms(2)]
  have pen: "img_roi_penalty k (replicate k b) props
               = Inr ((replicate k 1)[best_box b props := real k])"
    using assms by (rule img_roi_penalty_single_box)
  from am have lt: "best_box b props < k" by blast
  have "length ((replicate k (1::real))[best_box b props := real k]) = k" by simp
  moreover have "(replicate k (1::real))[best_box b props := real k] ! best_box b props = real k"
    using lt by simp
  moreover have "\<forall>i<k. i \<noteq> best_box b props \<longrightarrow>
      (replicate k (1::real))[best_box b props := real k] ! i = 1"
    by simp
  ultimately have "\<exists>pen. img_roi_penalty k (replicate k b) props = Inr pen \<and>
            length pen = k \<and>
            pen ! best_box b props = real k \<and>
            (\<forall>i<k. i \<noteq> best_box b props \<longrightarrow> pen ! i = 1)"
    using pen by blast
  with am show ?thesis by blast
qed

theorem duplicate_box_weight_single_object_witness:
  "(0::nat) < 3 \<and> length [(5, 5, 6, 6), (0, 0, 2, 2), (1, 1, 3, 3) :: box] = 3 \<and>
   best_box (0, 0, 2, 2) [(5, 5, 6, 6), (0, 0, 2, 2), (1, 1, 3, 3)] = 1 \<and>
   img_roi_penalty 3 (replicate 3 (0, 0, 2, 2)) [(5, 5, 6, 6), (0, 0, 2, 2), (1, 1, 3, 3)]
     = Inr [1, 3, 1]"
proof -
  have bb: "best_box (0, 0, 2, 2) [(5, 5, 6, 6), (0, 0, 2, 2), (1, 1, 3, 3)] = 1"
    by (simp add: best_box_def iou_unfold)
  have k: "(0::nat) < 3" and l: "length [(5, 5, 6, 6), (0, 0, 2, 2), (1, 1, 3, 3) :: box] = 3"
    by simp_all
  from duplicate_box_weight_single_object [OF k l, of "(0, 0, 2, 2)"]
  obtain pen where p: "img_roi_penalty 3 (replicate 3 (0, 0, 2, 2))
                         [(5, 5, 6, 6), (0, 0, 2, 2), (1, 1, 3, 3)] = Inr pen"
    and len: "length pen = 3" and best: "pen ! 1 = 3"
    and rest: "\<forall>i<3. i \<noteq> 1 \<longrightarrow> pen ! i = 1"
    unfolding bb by auto
  from rest have r0: "pen ! 0 = 1" and r2: "pen ! 2 = 1" by simp_all
  from len obtain x y z where xyz: "pen = [x, y, z]"
    by (auto simp: numeral_3_eq_3 length_Suc_conv)
  from r0 best r2 have "pen = [1, 3, 1]"
    unfolding xyz by (simp add: numeral_2_eq_2)
  with p bb show ?thesis by simp
qed

lemma np_unique_counts:
  assumes "np_unique rows = (ubs, counts)"
  shows "counts = map (count_list rows) ubs"
  using assms by (auto simp: np_unique_def Let_def)

text \<open>
  Claim C10. When no proposal box has a positive intersection over union against a
  unique ground-truth box, the best-match index stays 0 and the iteration for that box
  writes its duplicate count to row 0 of the image's weights.
\<close>

theorem unmatched_box_written_to_row_zero:
  assumes "np_unique ins_gt_boxes = (ubs, counts)" and "i < length ubs"
    and "\<forall>p\<in>set props. \<not> 0 < bb_intersection_over_union (ubs ! i) p"
    and "0 < n"
    and "roi_penalty_loop props (take i (zip ubs counts)) (replicate n 1) = Inr pen"
  shows "best_box (ubs ! i) props = 0 \<and>
         roi_penalty_loop props (take (Suc i) (zip ubs counts)) (replicate n 1) =
           Inr (pen[0 := real (count_list ins_gt_boxes (ubs ! i))]) \<and>
         pen[0 := real (count_list ins_gt_boxes (ubs ! i))] ! 0
           = real (count_list ins_gt_boxes (ubs ! i))"
proof -
  have c: "counts = map (count_list ins_gt_boxes) ubs"
    using assms(1) by (rule np_unique_counts)
  have z: "best_box (ubs ! i) props = 0"
    using assms(3) by (rule best_box_no_overlap)
  have i2: "i < length (zip ubs counts)" using assms(2) c by simp
  have nth: "zip ubs counts ! i = (ubs ! i, count_list ins_gt_boxes (ubs ! i))"
    using assms(2) c by simp
  have tk: "take (Suc i) (zip ubs counts) = take i (zip ubs counts) @ [zip ubs counts ! i]"
    using i2 by (rule take_Suc_conv_app_nth)
  have len: "length pen = n"
    using length_roi_penalty_loop [OF assms(5)] by simp
  then have pos: "0 < length pen"
    using assms(4) by simp
  have "roi_penalty_loop props (take (Suc i) (zip ubs counts)) (replicate n 1) =
          (if best_box (ubs ! i) props < length pen
           then Inr (pen[best_box (ubs ! i) props := real (count_list ins_gt_boxes (ubs ! i))])
           else Inl IndexError)"
    unfolding tk roi_penalty_loop_snoc assms(5) nth by (simp add: and_then_def)
  then have step: "roi_penalty_loop props (take (Suc i) (zip ubs counts)) (replicate n 1) =
           Inr (pen[0 := real (count_list ins_gt_boxes (ubs ! i))])"
    unfolding z using pos by (simp only: if_True)
  have "pen[0 := real (count_list ins_gt_boxes (ubs ! i))] ! 0
             = real (count_list ins_gt_boxes (ubs ! i))"
    using len assms(4) by simp
  with z step show ?thesis by simp
qed

theorem unmatched_box_written_to_row_zero_witness:
  "np_unique (replicate 2 (0, 0, 1, 1)) = ([(0, 0, 1, 1)], [2]) \<and>
   best_box (0, 0, 1, 1) [(5, 5, 6, 6), (7, 7, 8, 8)] = 0 \<and>
   roi_penalty_loop [(5, 5, 6, 6), (7, 7, 8, 8)] [] [1, 1] = Inr [1, 1] \<and>
   roi_penalty_loop [(5, 5, 6, 6), (7, 7, 8, 8)] [((0, 0, 1, 1), 2)] [1, 1] = Inr [2, 1] \<and>
   img_roi_penalty 2 (replicate 2 (0, 0, 1, 1)) [(5, 5, 6, 6), (7, 7, 8, 8)] = Inr [2, 1]"
proof -
  have u: "np_unique (replicate 2 (0, 0, 1, 1)) = ([(0, 0, 1, 1) :: box], [2])"
    by (simp add: np_unique_replicate)
  have i: "(0::nat) < length [(0, 0, 1, 1) :: box]" by simp
  have p: "\<forall>p\<in>set [(5, 5, 6, 6), (7, 7, 8, 8)].
             \<not> 0 < bb_intersection_over_union ([(0, 0, 1, 1)] ! 0) p"
    by (simp add: iou_unfold)
  have r: "replicate 2 (1::real) = [1, 1]" by (simp add: numeral_2_eq_2)
  have n: "(0::nat) < 2" by simp
  have e: "roi_penalty_loop [(5, 5, 6, 6), (7, 7, 8, 8)]
             (take 0 (zip [(0, 0, 1, 1)] [2])) (replicate 2 1) = Inr [1, 1]"
    by (simp add: r)
  from unmatched_box_written_to_row_zero [OF u i p n e] u r
  show ?thesis
    by (simp add: img_roi_penalty_def count_list_replicate_same)
qed

section \<open>Boundary weights\<close>

lemma set_window: "i < S \<Longrightarrow> set (window S i) = {a. a < S \<and> near a i}"
  by (auto simp: window_def near_def)

lemma window_lt: "a \<in> set (window S i) \<Longrightarrow> a < S"
  by (auto simp: window_def)

lemma self_in_window: "i < S \<Longrightarrow> i \<in> set (window S i)"
  by (auto simp: window_def)

lemma length_background [simp]: "length (background D S m) = S"
  by (simp add: background_def)

lemma length_background_row [simp]: "i < S \<Longrightarrow> length (background D S m ! i) = S"
  by (simp add: background_def)

lemma background_pixel:
  "i < S \<Longrightarrow> j < S \<Longrightarrow> background D S m ! i ! j = (if D m i j then 1 else 0)"
  by (simp add: background_def)

lemma window_values_background:
  assumes "i < S" "j < S"
  shows "window_values (background D S m) i j
           = map (\<lambda>p. if p then 1 else 0) (window_bits D S m i j)"
proof -
  have "map (\<lambda>b. background D S m ! a ! b) (window S j)
          = map (\<lambda>p. if p then 1 else 0) (map (\<lambda>b. D m a b) (window S j))"
    if "a \<in> set (window S i)" for a
    using that by (simp add: background_pixel window_lt)
  then have "map (\<lambda>a. map (\<lambda>b. background D S m ! a ! b) (window S j)) (window S i)
      = map (\<lambda>a. map (\<lambda>p. if p then 1 else 0) (map (\<lambda>b. D m a b) (window S j))) (window S i)"
    by (intro map_cong refl)
  then have "concat (map (\<lambda>a. map (\<lambda>b. background D S m ! a ! b) (window S j)) (window S i))
      = concat (map (\<lambda>a. map (\<lambda>p. if p then 1 else 0) (map (\<lambda>b. D m a b) (window S j))) (window S i))"
    by (rule arg_cong)
  then show ?thesis
    using assms by (simp add: window_values_def window_bits_def map_concat comp_def)
qed

lemma fold_max_bits:
  "fold max (map (\<lambda>p. if p then 1 else 0) bs) (if b0 then (1::real) else 0)
     = (if b0 \<or> (\<exists>b\<in>set bs. b) then 1 else 0)"
proof (induction bs arbitrary: b0)
  case Nil
  show ?case by simp
next
  case (Cons b bs)
  have "max (if b then 1 else 0) (if b0 then (1::real) else 0) = (if b \<or> b0 then 1 else 0)"
    by simp
  then show ?case using Cons.IH [of "b \<or> b0"] by auto
qed

lemma fold_min_bits:
  "fold min (map (\<lambda>p. if p then 1 else 0) bs) (if b0 then (1::real) else 0)
     = (if b0 \<and> (\<forall>b\<in>set bs. b) then 1 else 0)"
proof (induction bs arbitrary: b0)
  case Nil
  show ?case by simp
next
  case (Cons b bs)
  have "min (if b then 1 else 0) (if b0 then (1::real) else 0) = (if b \<and> b0 then 1 else 0)"
    by simp
  then show ?case using Cons.IH [of "b \<and> b0"] by auto
qed

lemma set_window_bits:
  "set (window_bits D S m i j) = (\<Union>a\<in>set (window S i). (\<lambda>b. D m a b) ` set (window S j))"
  by (simp add: window_bits_def)

lemma ex_window_bits:
  assumes "i < S" "j < S"
  shows "(D m i j \<or> (\<exists>b\<in>set (window_bits D S m i j). b)) = dilated (D m) S i j"
proof -
  have n: "near i i" "near j j" by (simp_all add: near_def)
  have "(\<exists>b\<in>set (window_bits D S m i j). b)
      = (\<exists>a\<in>set (window S i). \<exists>b\<in>set (window S j). D m a b)"
    unfolding set_window_bits by blast
  also have "\<dots> = (\<exists>a. a < S \<and> near a i \<and> (\<exists>b. b < S \<and> near b j \<and> D m a b))"
    unfolding set_window [OF assms(1)] set_window [OF assms(2)] by blast
  finally have e: "(\<exists>b\<in>set (window_bits D S m i j). b)
      = (\<exists>a. a < S \<and> near a i \<and> (\<exists>b. b < S \<and> near b j \<and> D m a b))" .
  have d: "dilated (D m) S i j = (\<exists>a. a < S \<and> near a i \<and> (\<exists>b. b < S \<and> near b j \<and> D m a b))"
    unfolding dilated_def by (simp add: Bex_def)
  show ?thesis unfolding e d using n assms by blast
qed

lemma all_window_bits:
  assumes "i < S" "j < S"
  shows "(D m i j \<and> (\<forall>b\<in>set (window_bits D S m i j). b)) = eroded (D m) S i j"
proof -
  have n: "near i i" "near j j" by (simp_all add: near_def)
  have "(\<forall>b\<in>set (window_bits D S m i j). b)
      = (\<forall>a\<in>set (window S i). \<forall>b\<in>set (window S j). D m a b)"
    unfolding set_window_bits by blast
  also have "\<dots> = (\<forall>a. a < S \<and> near a i \<longrightarrow> (\<forall>b. b < S \<and> near b j \<longrightarrow> D m a b))"
    unfolding set_window [OF assms(1)] set_window [OF assms(2)] by blast
  finally have e: "(\<forall>b\<in>set (window_bits D S m i j). b)
      = (\<forall>a. a < S \<and> near a i \<longrightarrow> (\<forall>b. b < S \<and> near b j \<longrightarrow> D m a b))" .
  have d: "eroded (D m) S i j = (\<forall>a. a < S \<and> near a i \<longrightarrow> (\<forall>b. b < S \<and> near b j \<longrightarrow> D m a b))"
    unfolding eroded_def by (simp add: Ball_def) blast
  show ?thesis unfolding e d using n assms by blast
qed

lemma dilate_pixel:
  assumes "i < S" "j < S"
  shows "cv_dilate (background D S m) ! i ! j = (if dilated (D m) S i j then 1 else 0)"
proof -
  have "cv_dilate (background D S m) ! i ! j
      = fold max (window_values (background D S m) i j) (background D S m ! i ! j)"
    using assms by (simp add: cv_dilate_def)
  also have "\<dots> = (if D m i j \<or> (\<exists>b\<in>set (window_bits D S m i j). b) then 1 else 0)"
    unfolding window_values_background [OF assms] background_pixel [OF assms]
    by (rule fold_max_bits)
  finally show ?thesis unfolding ex_window_bits [OF assms] .
qed

lemma erode_pixel:
  assumes "i < S" "j < S"
  shows "cv_erode (background D S m) ! i ! j = (if eroded (D m) S i j then 1 else 0)"
proof -
  have "cv_erode (background D S m) ! i ! j
      = fold min (window_values (background D S m) i j) (background D S m ! i ! j)"
    using assms by (simp add: cv_erode_def)
  also have "\<dots> = (if D m i j \<and> (\<forall>b\<in>set (window_bits D S m i j). b) then 1 else 0)"
    unfolding window_values_background [OF assms] background_pixel [OF assms]
    by (rule fold_min_bits)
  finally show ?thesis unfolding all_window_bits [OF assms] .
qed

lemma length_cv_dilate [simp]: "length (cv_dilate (background D S m)) = S"
  by (simp add: cv_dilate_def)

lemma length_cv_erode [simp]: "length (cv_erode (background D S m)) = S"
  by (simp add: cv_erode_def)

lemma length_cv_dilate_row [simp]: "i < S \<Longrightarrow> length (cv_dilate (background D S m) ! i) = S"
  by (simp add: cv_dilate_def)

lemma length_cv_erode_row [simp]: "i < S \<Longrightarrow> length (cv_erode (background D S m) ! i) = S"
  by (simp add: cv_erode_def)

lemma length_bound_pixels [simp]: "length (bound_pixels D S m) = S"
  by (simp add: bound_pixels_def Let_def astype_uint8_def)

lemma length_bound_pixels_row [simp]: "i < S \<Longrightarrow> length (bound_pixels D S m ! i) = S"
  by (simp add: bound_pixels_def Let_def astype_uint8_def)

lemma bound_pixels_nth:
  assumes "i < S" "j < S"
  shows "bound_pixels D S m ! i ! j
      = (word_of_int (if cv_dilate (background D S m) ! i ! j < 0
                      then \<lceil>cv_dilate (background D S m) ! i ! j\<rceil>
                      else \<lfloor>cv_dilate (background D S m) ! i ! j\<rfloor>) :: 8 word)
        XOR word_of_int (if cv_erode (background D S m) ! i ! j < 0
                      then \<lceil>cv_erode (background D S m) ! i ! j\<rceil>
                      else \<lfloor>cv_erode (background D S m) ! i ! j\<rfloor>)"
  using assms by (simp add: bound_pixels_def Let_def astype_uint8_def)

lemma bound_pixels_pixel:
  assumes "i < S" "j < S"
  shows "bound_pixels D S m ! i ! j = (if boundary_band (D m) S i j then 1 else 0)"
  unfolding bound_pixels_nth [OF assms] dilate_pixel [OF assms] erode_pixel [OF assms]
    boundary_band_def
  by simp

lemma boundary_where_nth:
  assumes "n < length v" "i < length (v ! n)" "j < length (v ! n ! i)"
  shows "boundary_where v ! n ! i ! j = (if v ! n ! i ! j = 1 then 1 * BNDRY_WT else 1)"
  using assms by (simp add: boundary_where_def)

text \<open>
  Claim C7. For every ground-truth mask, the boundary weight of a pixel is the
  boundary constant, which is 0, when the pixel is on the boundary band of the mask's
  silhouette (the exclusive-or of its 3 x 3 dilation and 3 x 3 erosion), and 1 at
  every other pixel.
\<close>

theorem boundary_weight_on_band:
  assumes "n < length masks" and "i < S" and "j < S"
  shows "boundary_where (map (bound_pixels D S) masks) ! n ! i ! j
           = (if boundary_band (D (masks ! n)) S i j then BNDRY_WT else 1) \<and>
         BNDRY_WT = 0"
proof -
  have "boundary_where (map (bound_pixels D S) masks) ! n ! i ! j
      = (if map (bound_pixels D S) masks ! n ! i ! j = 1 then 1 * BNDRY_WT else 1)"
    using assms by (intro boundary_where_nth) simp_all
  also have "\<dots> = (if bound_pixels D S (masks ! n) ! i ! j = 1 then BNDRY_WT else 1)"
    using assms(1) by simp
  also have "\<dots> = (if boundary_band (D (masks ! n)) S i j then BNDRY_WT else 1)"
    unfolding bound_pixels_pixel [OF assms(2,3)] by simp
  finally show ?thesis by (simp add: BNDRY_WT_def)
qed

theorem boundary_weight_on_band_witness:
  "boundary_band (\<lambda>i j. [[True, False], [False, False]] ! i ! j) 2 1 1 \<and>
   boundary_where (map (bound_pixels (\<lambda>m i j. m ! i ! j) 2)
       [[[True, False], [False, False]], [[True, True], [True, True]]]) ! 0 ! 1 ! 1 = 0 \<and>
   \<not> boundary_band (\<lambda>i j. [[True, True], [True, True]] ! i ! j) 2 0 1 \<and>
   boundary_where (map (bound_pixels (\<lambda>m i j. m ! i ! j) 2)
       [[[True, False], [False, False]], [[True, True], [True, True]]]) ! 1 ! 0 ! 1 = 1"
proof -
  have u: "[0..<2] = [0, 1]" by (simp add: upt_rec)
  have b0: "boundary_band (\<lambda>i j. [[True, False], [False, False]] ! i ! j) 2 1 1"
    by (simp add: boundary_band_def dilated_def eroded_def near_def u del: set_upt)
  have b1: "\<not> boundary_band (\<lambda>i j. [[True, True], [True, True]] ! i ! j) 2 0 1"
    by (simp add: boundary_band_def dilated_def eroded_def near_def u del: set_upt)
  have l: "(0::nat) < length [[[True, False], [False, False]], [[True, True], [True, True]]]"
    "(1::nat) < length [[[True, False], [False, False]], [[True, True], [True, True]]]"
    "(0::nat) < 2" "(1::nat) < 2"
    by simp_all
  from boundary_weight_on_band [OF l(1) l(4) l(4), of "\<lambda>m i j. m ! i ! j"]
       boundary_weight_on_band [OF l(2) l(3) l(4), of "\<lambda>m i j. m ! i ! j"] b0 b1
  show ?thesis by simp
qed

section \<open>Overlap weights\<close>

lemma quad_zero: "quad 0 = Some 1"
  by (simp add: quad_value)

lemma overlap_weights_concat:
  "rs \<noteq> [] \<Longrightarrow> overlap_weights rs = Inr (concat (map (map (map (map quad))) rs))"
  by (simp add: overlap_weights_def torch_cat_def and_then_def map_concat)

text \<open>
  Claim C4, as the code has it. For an image with at most one distinct ground-truth
  object, the raw overlap raster of the image is zero at every pixel of every
  instance, and the final overlap weights of these instances, which are \<open>quad\<close> of the
  raster, are 1 at every pixel.
\<close>

theorem single_object_overlap_raster_zero_weight_one:
  assumes "distinct_first_polygons polys [] = Inr seen" and "length seen \<le> 1"
  shows "per_ins_overlap_masks R S n polys props gt = Inr (map (map (map (\<lambda>_. 0))) gt) \<and>
         overlap_weights (before @ [map (map (map (\<lambda>_. 0))) gt] @ after) =
           Inr (concat (map (map (map (map quad))) before)
                @ map (map (map (\<lambda>_. Some 1))) gt
                @ concat (map (map (map (map quad))) after))"
proof -
  have "per_ins_overlap_masks R S n polys props gt = Inr (map (map (map (\<lambda>_. 0))) gt)"
    using assms by (simp add: per_ins_overlap_masks_def and_then_def Let_def)
  moreover have "map (map (map quad)) (map (map (map (\<lambda>_. 0))) gt)
                   = map (map (map (\<lambda>_. Some 1))) gt"
    by (simp add: quad_zero comp_def)
  ultimately show ?thesis
    by (simp add: overlap_weights_concat)
qed

theorem single_object_overlap_raster_zero_weight_one_witness:
  "distinct_first_polygons [[[0, 0, 1, 0, 1, 1]], [[0, 0, 1, 0, 1, 1]]] [] = Inr [[0, 0, 1, 0, 1, 1]] \<and>
   length [[0, 0, 1, 0, 1, 1 :: real]] \<le> 1 \<and>
   per_ins_overlap_masks (\<lambda>p b S i j. True) 1 2 [[[0, 0, 1, 0, 1, 1]], [[0, 0, 1, 0, 1, 1]]]
       [(0, 0, 1, 1), (0, 0, 2, 2)] [[[True]], [[False]]] = Inr [[[0]], [[0]]] \<and>
   overlap_weights [[[[0]], [[0]]]] = Inr [[[Some 1]], [[Some 1]]]"
proof -
  have d: "distinct_first_polygons [[[0, 0, 1, 0, 1, 1]], [[0, 0, 1, 0, 1, 1]]] []
             = Inr [[0, 0, 1, 0, 1, 1 :: real]]"
    by simp
  have l: "length [[0, 0, 1, 0, 1, 1 :: real]] \<le> 1" by simp
  from single_object_overlap_raster_zero_weight_one
         [OF d l, of "\<lambda>p b S i j. True" 1 2 "[(0, 0, 1, 1), (0, 0, 2, 2)]"
            "[[[True]], [[False]]]" "[]" "[]"] d l
  show ?thesis by simp
qed

text \<open>
  Claim C4, as the specification states it, fails: for one image with one instance
  and one object the final overlap weight of the pixel is 1, not 0.
\<close>

theorem single_object_overlap_weight_not_zero:
  "distinct_first_polygons [[[0, 0, 1, 0, 1, 1]]] [] = Inr [[0, 0, 1, 0, 1, 1]] \<and>
   per_ins_overlap_masks (\<lambda>p b S i j. True) 1 1 [[[0, 0, 1, 0, 1, 1]]] [(0, 0, 1, 1)] [[[True]]]
     = Inr [[[0]]] \<and>
   overlap_weights [[[[0]]]] = Inr [[[Some 1]]] \<and>
   overlap_weights [[[[0]]]] \<noteq> Inr [[[Some 0]]]"
  by (simp add: per_ins_overlap_masks_def and_then_def Let_def overlap_weights_def
        torch_cat_def quad_zero)

section \<open>The loss on a batch without foreground instances\<close>

lemma image_step_empty:
  "image_step R D a S (empty_instances sz) acc = Inr acc"
  by (simp add: image_step_def empty_instances_def len_instances_def and_then_def)

lemma image_loop_empty:
  "image_loop R D a S (replicate k (empty_instances sz)) acc = Inr acc"
  by (induction k) (simp_all add: image_step_empty and_then_def)

text \<open>
  Claim C2 fails on the code. For a batch of \<open>k\<close> images without foreground instances and
  square logits, \<open>torch.stack\<close> of the empty list of boundary masks raises before the
  test for an empty batch is reached.
\<close>

theorem mask_rcnn_loss_empty_batch_raises:
  "mask_rcnn_loss R D log_vars t (replicate k (empty_instances sz))
     = (if dim2 t = dim3 t then Inl RuntimeError else Inl AssertionError)"
  by (simp add: mask_rcnn_loss_def Let_def image_loop_empty and_then_def no_penalties_def)

theorem mask_rcnn_loss_empty_batch_raises_witness:
  "mask_rcnn_loss (\<lambda>p b S i j. True) (\<lambda>m i j. m ! i ! j) (0, 0, 0)
     \<lparr>dim0 = 0, dim1 = 1, dim2 = 28, dim3 = 28, elems = []\<rparr> [empty_instances (480, 640)]
     = Inl RuntimeError \<and>
   mask_rcnn_loss (\<lambda>p b S i j. True) (\<lambda>m i j. m ! i ! j) (0, 0, 0)
     \<lparr>dim0 = 0, dim1 = 1, dim2 = 28, dim3 = 28, elems = []\<rparr> [] = Inl RuntimeError"
  using mask_rcnn_loss_empty_batch_raises [of "\<lambda>p b S i j. True" "\<lambda>m i j. m ! i ! j" "(0, 0, 0)"
      "\<lparr>dim0 = 0, dim1 = 1, dim2 = 28, dim3 = 28, elems = []\<rparr>" 1 "(480, 640)"]
    mask_rcnn_loss_empty_batch_raises [of "\<lambda>p b S i j. True" "\<lambda>m i j. m ! i ! j" "(0, 0, 0)"
      "\<lparr>dim0 = 0, dim1 = 1, dim2 = 28, dim3 = 28, elems = []\<rparr>" 0 "(480, 640)"]
  by simp

section \<open>Inference\<close>

lemma map_err_Inr:
  assumes "\<forall>x\<in>set xs. f x = Inr (g x)"
  shows "map_err f xs = Inr (map g xs)"
  using assms by (induction xs) (simp_all add: and_then_def)

lemma len_instances_the_len:
  "inst_fields I \<noteq> [] \<Longrightarrow> len_instances I = Inr (the_len I)"
  by (cases "inst_fields I") (simp_all add: the_len_def len_instances_def)

lemma wf_field_len:
  assumes "wf_instances I" and "map_of (inst_fields I) name = Some v"
  shows "field_len v = the_len I"
proof -
  from assms(2) have "(name, v) \<in> set (inst_fields I)" by (rule map_of_SomeD)
  with assms(1) have "Inr (field_len (snd (name, v))) = len_instances I"
    unfolding wf_instances_def by (rule bspec)
  then show ?thesis by (simp add: the_len_def flip: \<open>Inr _ = _\<close>)
qed

lemma get_ints_length:
  assumes "wf_instances I" and "get_ints I name = Inr cls"
  shows "length cls = the_len I"
proof -
  from assms(2) have "map_of (inst_fields I) name = Some (IntField cls)"
    by (simp add: get_ints_def split: option.splits field.splits)
  from wf_field_len [OF assms(1) this] show ?thesis by simp
qed

lemma length_chunks [simp]: "length (chunks xs ns) = length ns"
  by (induction ns arbitrary: xs) simp_all

lemma chunks_nth:
  "k < length ns \<Longrightarrow> chunks xs ns ! k = take (ns ! k) (drop (sum_list (take k ns)) xs)"
proof (induction ns arbitrary: xs k)
  case Nil
  then show ?case by simp
next
  case (Cons n ns)
  show ?case
  proof (cases k)
    case 0
    then show ?thesis by simp
  next
    case (Suc k')
    with Cons.prems have "k' < length ns" by simp
    from Cons.IH [OF this, of "drop n xs"] Suc show ?thesis
      by (simp add: add.commute)
  qed
qed

lemma concat_nth_offset:
  "k < length xss \<Longrightarrow> m < length (xss ! k) \<Longrightarrow>
     concat xss ! (sum_list (map length (take k xss)) + m) = xss ! k ! m"
proof (induction xss arbitrary: k)
  case Nil
  then show ?case by simp
next
  case (Cons xs xss)
  show ?case
  proof (cases k)
    case 0
    with Cons.prems show ?thesis by (simp add: nth_append)
  next
    case (Suc k')
    with Cons.prems have "k' < length xss" "m < length (xss ! k')" by simp_all
    from Cons.IH [OF this] Suc show ?thesis
      by (simp add: nth_append add.assoc)
  qed
qed

lemma sum_list_take_le:
  fixes ns :: "nat list"
  shows "k < length ns \<Longrightarrow> sum_list (take k ns) + ns ! k \<le> sum_list ns"
proof (induction ns arbitrary: k)
  case Nil
  then show ?case by simp
next
  case (Cons n ns)
  show ?case
  proof (cases k)
    case 0
    then show ?thesis by simp
  next
    case (Suc k')
    with Cons.prems have "k' < length ns" by simp
    from Cons.IH [OF this] Suc show ?thesis by simp
  qed
qed

lemma chunk_of_map_upt:
  assumes "k < length ns" and "sum_list ns = B"
  shows "chunks (map F [0..<B]) ns ! k = map (\<lambda>m. F (sum_list (take k ns) + m)) [0..<ns ! k]"
proof -
  define off where "off = sum_list (take k ns)"
  have le: "off + ns ! k \<le> B"
    using sum_list_take_le [OF assms(1)] assms(2) by (simp add: off_def)
  have "chunks (map F [0..<B]) ns ! k = take (ns ! k) (drop off (map F [0..<B]))"
    using assms(1) by (simp add: chunks_nth off_def)
  also have "\<dots> = map F (take (ns ! k) [off..<B])"
    by (simp add: drop_map take_map)
  also have "take (ns ! k) [off..<B] = [off..<off + ns ! k]"
    using le by (simp add: take_upt)
  also have "map F [off..<off + ns ! k] = map (\<lambda>m. F (off + m)) [0..<ns ! k]"
    by (intro nth_equalityI) simp_all
  finally show ?thesis by (simp add: off_def)
qed

lemma singleton_map_nth0: "length r = 1 \<Longrightarrow> map f r = [f (r ! 0)]"
  by (cases r) simp_all

lemma agnostic_probs:
  assumes "wf_tensor4 t" and "dim1 t = 1"
  shows "map (map (map (map sigmoid))) (elems t) = map (\<lambda>g. soft_mask t g 0) [0..<dim0 t]"
proof (rule nth_equalityI)
  show "length (map (map (map (map sigmoid))) (elems t)) = length (map (\<lambda>g. soft_mask t g 0) [0..<dim0 t])"
    using assms(1) by (simp add: wf_tensor4_def)
next
  fix g assume "g < length (map (map (map (map sigmoid))) (elems t))"
  then have g: "g < length (elems t)" by simp
  then have "elems t ! g \<in> set (elems t)" by (rule nth_mem)
  with assms have "length (elems t ! g) = 1" by (simp add: wf_tensor4_def)
  then have "map (map (map sigmoid)) (elems t ! g) = [map (map sigmoid) (elems t ! g ! 0)]"
    by (rule singleton_map_nth0)
  moreover have "g < dim0 t" using g assms(1) by (simp add: wf_tensor4_def)
  ultimately show "map (map (map (map sigmoid))) (elems t) ! g = map (\<lambda>g. soft_mask t g 0) [0..<dim0 t] ! g"
    using g by (simp add: soft_mask_def)
qed

lemma index_classes_aligned:
  assumes "length cls = dim0 t" and "\<forall>c\<in>set cls. c < dim1 t"
  shows "index_classes t cls = Inr (map (\<lambda>g. elems t ! g ! (cls ! g)) [0..<dim0 t])"
proof -
  have b: "broadcast_indices [0..<dim0 t] cls = Inr (zip [0..<dim0 t] cls)"
    using assms(1) by (simp add: broadcast_indices_def)
  have ok: "\<forall>p\<in>set (zip [0..<dim0 t] cls). snd p < dim1 t"
  proof
    fix p assume "p \<in> set (zip [0..<dim0 t] cls)"
    then have "(fst p, snd p) \<in> set (zip [0..<dim0 t] cls)" by simp
    then have "snd p \<in> set cls" by (rule set_zip_rightD)
    with assms(2) show "snd p < dim1 t" by blast
  qed
  have "map (\<lambda>p. elems t ! fst p ! snd p) (zip [0..<dim0 t] cls)
          = map (\<lambda>g. elems t ! g ! (cls ! g)) [0..<dim0 t]"
    using assms(1) by (intro nth_equalityI) simp_all
  with b ok show ?thesis
    by (simp add: index_classes_def Let_def and_then_def)
qed

lemma attach_masks_ok:
  assumes "length cs = length insts"
    and "\<forall>k<length insts. len_instances (insts ! k) = Inr (length (cs ! k))"
  shows "attach_masks (zip cs insts) =
           Inr (map2 (\<lambda>c I. I\<lparr>inst_fields := AList.update ''pred_masks'' (MaskField c) (inst_fields I)\<rparr>)
                  cs insts)"
  using assms
proof (induction cs insts rule: list_induct2)
  case Nil
  show ?case by simp
next
  case (Cons c cs I insts)
  from Cons.prems have "len_instances ((I # insts) ! 0) = Inr (length ((c # cs) ! 0))"
    by blast
  then have h: "len_instances I = Inr (length c)" by simp
  have "\<forall>k<length insts. len_instances (insts ! k) = Inr (length (cs ! k))"
  proof (intro allI impI)
    fix k assume "k < length insts"
    then have "Suc k < length (I # insts)" by simp
    with Cons.prems have "len_instances ((I # insts) ! Suc k) = Inr (length ((c # cs) ! Suc k))"
      by blast
    then show "len_instances (insts ! k) = Inr (length (cs ! k))" by simp
  qed
  from Cons.IH [OF this] h show ?case
    by (simp add: set_field_def and_then_def)
qed

lemma len_instances_update:
  assumes "inst_fields I \<noteq> []" and "wf_instances I" and "length c = the_len I"
  shows "len_instances (I\<lparr>inst_fields := AList.update ''pred_masks'' (MaskField c) (inst_fields I)\<rparr>)
           = len_instances I"
proof -
  obtain k v rest where f: "inst_fields I = (k, v) # rest"
    using assms(1) by (cases "inst_fields I") auto
  have l: "len_instances I = Inr (field_len v)"
    by (simp add: len_instances_def f)
  with assms(1) have "field_len v = the_len I"
    by (simp add: len_instances_the_len)
  with assms(3) l show ?thesis
    by (simp add: len_instances_def f)
qed

lemma mask_rcnn_inference_result:
  assumes ok: "inference_inputs_ok t insts"
  shows "mask_rcnn_inference t insts =
           Inr (map2 (\<lambda>c I. I\<lparr>inst_fields := AList.update ''pred_masks'' (MaskField c) (inst_fields I)\<rparr>)
                  (map (expected_pred_masks t insts) [0..<length insts]) insts)"
proof -
  define ns where "ns = map the_len insts"
  define cs where "cs = map (\<lambda>I. the_ints I ''pred_classes'') insts"
  define ch where "ch g = (if dim1 t = 1 then 0 else concat cs ! g)" for g
  define F where "F g = soft_mask t g (ch g)" for g
  from ok have wf: "wf_tensor4 t"
    and each: "\<forall>I\<in>set insts. wf_instances I \<and> inst_fields I \<noteq> []"
    and total: "sum_list ns = dim0 t"
    and spec: "dim1 t \<noteq> 1 \<Longrightarrow> insts \<noteq> []"
    and cls: "dim1 t \<noteq> 1 \<Longrightarrow> \<forall>I\<in>set insts.
            case get_ints I ''pred_classes'' of Inr cls \<Rightarrow> \<forall>c\<in>set cls. c < dim1 t | Inl _ \<Rightarrow> False"
    by (simp_all add: inference_inputs_ok_def ns_def)
  have lens: "map_err len_instances insts = Inr ns"
    unfolding ns_def using each by (intro map_err_Inr) (simp add: len_instances_the_len)
  have get: "\<forall>I\<in>set insts. get_ints I ''pred_classes'' = Inr (the_ints I ''pred_classes'')"
    if "dim1 t \<noteq> 1"
  proof
    fix I assume "I \<in> set insts"
    with cls [OF that] have "case get_ints I ''pred_classes'' of
        Inr cls \<Rightarrow> \<forall>c\<in>set cls. c < dim1 t | Inl _ \<Rightarrow> False" by blast
    then show "get_ints I ''pred_classes'' = Inr (the_ints I ''pred_classes'')"
      by (cases "get_ints I ''pred_classes''") (simp_all add: the_ints_def)
  qed
  have ml: "map length cs = ns" if "dim1 t \<noteq> 1"
  proof (rule nth_equalityI)
    show "length (map length cs) = length ns" by (simp add: cs_def ns_def)
  next
    fix j assume "j < length (map length cs)"
    then have j: "j < length insts" by (simp add: cs_def)
    then have J: "insts ! j \<in> set insts" by simp
    with get [OF that]
    have gj: "get_ints (insts ! j) ''pred_classes'' = Inr (the_ints (insts ! j) ''pred_classes'')"
      by blast
    from each J have "wf_instances (insts ! j)" by blast
    from get_ints_length [OF this gj] j
    show "map length cs ! j = ns ! j" by (simp add: cs_def ns_def)
  qed
  have probs: "(if dim1 t = 1 then Inr (map (map (map (map sigmoid))) (elems t))
         else
           and_then (map_err (\<lambda>i. get_ints i ''pred_classes'') insts) (\<lambda>cs.
           and_then (cat cs) (\<lambda>class_pred.
           and_then (index_classes t class_pred) (\<lambda>sel.
             Inr (map (\<lambda>g. [map (map sigmoid) g]) sel))))) = Inr (map F [0..<dim0 t])"
  proof (cases "dim1 t = 1")
    case True
    then show ?thesis
      using agnostic_probs [OF wf True] by (simp add: F_def ch_def)
  next
    case False
    note get = get [OF False]
    from get have m: "map_err (\<lambda>i. get_ints i ''pred_classes'') insts = Inr cs"
      unfolding cs_def by (rule map_err_Inr)
    have "cs \<noteq> []" using spec [OF False] by (simp add: cs_def)
    then have c: "cat cs = Inr (concat cs)"
      by (cases cs rule: list.exhaust; cases "tl cs")
         (auto simp: cat_def torch_cat_def split: list.splits)
    have len: "length (concat cs) = dim0 t"
      using total ml [OF False] by (simp add: length_concat)
    have bound: "\<forall>c\<in>set (concat cs). c < dim1 t"
    proof
      fix c assume "c \<in> set (concat cs)"
      then obtain I where I: "I \<in> set insts" "c \<in> set (the_ints I ''pred_classes'')"
        by (auto simp: cs_def)
      from cls [OF False] I(1) get have "\<forall>c\<in>set (the_ints I ''pred_classes''). c < dim1 t"
        by (auto split: sum.splits)
      with I(2) show "c < dim1 t" by blast
    qed
    have "map (\<lambda>g. [map (map sigmoid) g]) (map (\<lambda>g. elems t ! g ! (concat cs ! g)) [0..<dim0 t])
            = map F [0..<dim0 t]"
      using False by (simp add: F_def ch_def soft_mask_def comp_def)
    then show ?thesis
      using False m c index_classes_aligned [OF len bound]
      by (simp add: and_then_def)
  qed
  have split: "torch_split (map F [0..<dim0 t]) ns = Inr (chunks (map F [0..<dim0 t]) ns)"
    using total by (simp add: torch_split_def)
  have chunk: "chunks (map F [0..<dim0 t]) ns ! k = expected_pred_masks t insts k"
    if k: "k < length insts" for k
  proof -
    have kn: "k < length ns" using k by (simp add: ns_def)
    have off: "sum_list (take k ns) = row_offset insts k"
      by (simp add: ns_def row_offset_def take_map)
    have nk: "ns ! k = the_len (insts ! k)" using k by (simp add: ns_def)
    have "F (row_offset insts k + m)
            = soft_mask t (row_offset insts k + m)
                (if dim1 t = 1 then 0 else the_ints (insts ! k) ''pred_classes'' ! m)"
      if m: "m < the_len (insts ! k)" for m
    proof (cases "dim1 t = 1")
      case True
      then show ?thesis by (simp add: F_def ch_def)
    next
      case False
      have I: "insts ! k \<in> set insts" using k by simp
      with get [OF False]
      have g: "get_ints (insts ! k) ''pred_classes'' = Inr (the_ints (insts ! k) ''pred_classes'')"
        by blast
      from each I have "wf_instances (insts ! k)" by blast
      from get_ints_length [OF this g]
      have l: "length (the_ints (insts ! k) ''pred_classes'') = the_len (insts ! k)" .
      note ml = ml [OF False]
      have kc: "k < length cs" using k by (simp add: cs_def)
      have mc: "m < length (cs ! k)" using k m l by (simp add: cs_def)
      have "concat cs ! (sum_list (map length (take k cs)) + m) = cs ! k ! m"
        using kc mc by (rule concat_nth_offset)
      moreover have "sum_list (map length (take k cs)) = row_offset insts k"
        using ml off by (simp add: take_map [symmetric])
      ultimately have "concat cs ! (row_offset insts k + m) = the_ints (insts ! k) ''pred_classes'' ! m"
        using k by (simp add: cs_def)
      then show ?thesis using False by (simp add: F_def ch_def)
    qed
    then have "map (\<lambda>m. F (row_offset insts k + m)) [0..<the_len (insts ! k)]
            = expected_pred_masks t insts k"
      unfolding expected_pred_masks_def by (intro map_cong refl) simp
    then show ?thesis
      using chunk_of_map_upt [OF kn total, of F] by (simp add: off nk)
  qed
  have cm: "chunks (map F [0..<dim0 t]) ns = map (expected_pred_masks t insts) [0..<length insts]"
  proof (rule nth_equalityI)
    show "length (chunks (map F [0..<dim0 t]) ns)
            = length (map (expected_pred_masks t insts) [0..<length insts])"
      by (simp add: ns_def)
  next
    fix k assume "k < length (chunks (map F [0..<dim0 t]) ns)"
    then have k: "k < length insts" by (simp add: ns_def)
    from chunk [OF k] k
    show "chunks (map F [0..<dim0 t]) ns ! k
            = map (expected_pred_masks t insts) [0..<length insts] ! k"
      by simp
  qed
  have lenk: "\<forall>k<length insts. len_instances (insts ! k)
                 = Inr (length (map (expected_pred_masks t insts) [0..<length insts] ! k))"
  proof (intro allI impI)
    fix k assume k: "k < length insts"
    then have "insts ! k \<in> set insts" by simp
    with each have "inst_fields (insts ! k) \<noteq> []" by blast
    then have "len_instances (insts ! k) = Inr (the_len (insts ! k))"
      by (rule len_instances_the_len)
    then show "len_instances (insts ! k)
                 = Inr (length (map (expected_pred_masks t insts) [0..<length insts] ! k))"
      using k by (simp add: expected_pred_masks_def)
  qed
  have "attach_masks (zip (map (expected_pred_masks t insts) [0..<length insts]) insts) =
           Inr (map2 (\<lambda>c I. I\<lparr>inst_fields := AList.update ''pred_masks'' (MaskField c) (inst_fields I)\<rparr>)
                  (map (expected_pred_masks t insts) [0..<length insts]) insts)"
    using lenk by (intro attach_masks_ok) simp_all
  then show ?thesis
    unfolding mask_rcnn_inference_def Let_def probs
    by (simp add: and_then_def lens split cm)
qed

lemma update_new_key_appends:
  "k \<notin> fst ` set al \<Longrightarrow> AList.update k v al = al @ [(k, v)]"
  by (induction al) auto

text \<open>
  Claim C9. In inference mode, under the input contract, the head returns the instance
  records it was given, one per image and in the same order, each with the field
  \<open>pred_masks\<close> set to the single-channel sigmoid masks of its instances (channel 0 for
  class-agnostic logits, the channel of the predicted class otherwise). The image size,
  the number of instances and every other field are unchanged; when \<open>pred_masks\<close> was
  not a field before, it is added after the fields that were there.
\<close>

theorem inference_attaches_masks_only:
  assumes "inference_inputs_ok (layers x) insts"
  shows "\<exists>out. forward layers False R D log_vars x insts = Inr (Predictions out) \<and>
           length out = length insts \<and>
           (\<forall>k<length insts.
              image_size (out ! k) = image_size (insts ! k) \<and>
              len_instances (out ! k) = len_instances (insts ! k) \<and>
              map_of (inst_fields (out ! k)) =
                (map_of (inst_fields (insts ! k)))
                  (''pred_masks'' \<mapsto> MaskField (expected_pred_masks (layers x) insts k)) \<and>
              (''pred_masks'' \<notin> fst ` set (inst_fields (insts ! k)) \<longrightarrow>
                 inst_fields (out ! k) =
                   inst_fields (insts ! k)
                     @ [(''pred_masks'', MaskField (expected_pred_masks (layers x) insts k))]))"
proof -
  define t where "t = layers x"
  define out where "out =
     map2 (\<lambda>c I. I\<lparr>inst_fields := AList.update ''pred_masks'' (MaskField c) (inst_fields I)\<rparr>)
       (map (expected_pred_masks t insts) [0..<length insts]) insts"
  from assms have ok: "inference_inputs_ok t insts" by (simp add: t_def)
  then have each: "\<forall>I\<in>set insts. wf_instances I \<and> inst_fields I \<noteq> []"
    by (simp add: inference_inputs_ok_def)
  have res: "forward layers False R D log_vars x insts = Inr (Predictions out)"
    using mask_rcnn_inference_result [OF ok]
    by (simp add: forward_def Let_def and_then_def out_def t_def)
  have len: "length out = length insts" by (simp add: out_def)
  have nth: "out ! k = (insts ! k)\<lparr>inst_fields :=
                AList.update ''pred_masks'' (MaskField (expected_pred_masks t insts k))
                  (inst_fields (insts ! k))\<rparr>"
    if "k < length insts" for k
    using that by (simp add: out_def)
  have props: "image_size (out ! k) = image_size (insts ! k) \<and>
              len_instances (out ! k) = len_instances (insts ! k) \<and>
              map_of (inst_fields (out ! k)) =
                (map_of (inst_fields (insts ! k)))
                  (''pred_masks'' \<mapsto> MaskField (expected_pred_masks t insts k)) \<and>
              (''pred_masks'' \<notin> fst ` set (inst_fields (insts ! k)) \<longrightarrow>
                 inst_fields (out ! k) =
                   inst_fields (insts ! k)
                     @ [(''pred_masks'', MaskField (expected_pred_masks t insts k))])"
    if k: "k < length insts" for k
  proof -
    from k have "insts ! k \<in> set insts" by simp
    with each have w: "wf_instances (insts ! k)" and ne: "inst_fields (insts ! k) \<noteq> []"
      by blast+
    have l: "length (expected_pred_masks t insts k) = the_len (insts ! k)"
      by (simp add: expected_pred_masks_def)
    have 1: "image_size (out ! k) = image_size (insts ! k)"
      by (simp add: nth [OF k])
    have 2: "len_instances (out ! k) = len_instances (insts ! k)"
      unfolding nth [OF k] using ne w l by (rule len_instances_update)
    have 3: "map_of (inst_fields (out ! k)) =
                (map_of (inst_fields (insts ! k)))
                  (''pred_masks'' \<mapsto> MaskField (expected_pred_masks t insts k))"
      by (simp add: nth [OF k] update_conv')
    have 4: "''pred_masks'' \<notin> fst ` set (inst_fields (insts ! k)) \<longrightarrow>
                 inst_fields (out ! k) =
                   inst_fields (insts ! k)
                     @ [(''pred_masks'', MaskField (expected_pred_masks t insts k))]"
      by (simp add: nth [OF k] update_new_key_appends)
    from 1 2 3 4 show ?thesis by blast
  qed
  from res len props show ?thesis unfolding t_def by blast
qed

theorem inference_attaches_masks_only_witness:
  "inference_inputs_ok
     \<lparr>dim0 = 2, dim1 = 2, dim2 = 1, dim3 = 1, elems = [[[[0]], [[1]]], [[[2]], [[3]]]]\<rparr>
     [\<lparr>image_size = (1, 1), inst_fields = [(''pred_classes'', IntField [1, 0])]\<rparr>] \<and>
   forward (\<lambda>x. x) False (\<lambda>p b S i j. True) (\<lambda>m i j. m ! i ! j) (0, 0, 0)
     \<lparr>dim0 = 2, dim1 = 2, dim2 = 1, dim3 = 1, elems = [[[[0]], [[1]]], [[[2]], [[3]]]]\<rparr>
     [\<lparr>image_size = (1, 1), inst_fields = [(''pred_classes'', IntField [1, 0])]\<rparr>]
   = Inr (Predictions
       [\<lparr>image_size = (1, 1),
         inst_fields = [(''pred_classes'', IntField [1, 0]),
                        (''pred_masks'', MaskField [[[[sigmoid 1]]], [[[sigmoid 2]]]])]\<rparr>])"
proof -
  define t where "t = \<lparr>dim0 = 2, dim1 = 2, dim2 = 1, dim3 = 1,
                        elems = [[[[0]], [[1]]], [[[2]], [[3::real]]]]\<rparr>"
  define I where "I = \<lparr>image_size = (1::nat, 1::nat),
                        inst_fields = [(''pred_classes'', IntField [1, 0])]\<rparr>"
  have tl: "the_len I = 2"
    by (simp add: the_len_def len_instances_def I_def)
  have ok: "inference_inputs_ok t [I]"
    by (simp add: inference_inputs_ok_def wf_tensor4_def wf_instances_def len_instances_def
          get_ints_def tl) (simp add: t_def I_def)
  have u: "[0..<2] = [0, 1]" by (simp add: upt_rec)
  have e: "expected_pred_masks t [I] 0 = [[[[sigmoid 1]]], [[[sigmoid 2]]]]"
    by (simp add: expected_pred_masks_def row_offset_def tl u soft_mask_def the_ints_def
          get_ints_def) (simp add: t_def I_def)
  from inference_attaches_masks_only
         [where layers = "\<lambda>x. x" and x = t and insts = "[I]" and R = "\<lambda>p b S i j. True"
            and D = "\<lambda>m i j. m ! i ! j" and log_vars = "(0, 0, 0)", OF ok]
  obtain out where
    r: "forward (\<lambda>x. x) False (\<lambda>p b S i j. True) (\<lambda>m i j. m ! i ! j) (0, 0, 0) t [I]
          = Inr (Predictions out)"
    and l: "length out = length [I]"
    and p: "\<forall>k<length [I].
              image_size (out ! k) = image_size ([I] ! k) \<and>
              len_instances (out ! k) = len_instances ([I] ! k) \<and>
              map_of (inst_fields (out ! k)) =
                (map_of (inst_fields ([I] ! k)))
                  (''pred_masks'' \<mapsto> MaskField (expected_pred_masks t [I] k)) \<and>
              (''pred_masks'' \<notin> fst ` set (inst_fields ([I] ! k)) \<longrightarrow>
                 inst_fields (out ! k) =
                   inst_fields ([I] ! k)
                     @ [(''pred_masks'', MaskField (expected_pred_masks t [I] k))])"
    by auto
  from l obtain J where out: "out = [J]"
    by (cases out) simp_all
  from p have "image_size J = image_size I \<and>
        (''pred_masks'' \<notin> fst ` set (inst_fields I) \<longrightarrow>
           inst_fields J = inst_fields I @ [(''pred_masks'', MaskField (expected_pred_masks t [I] 0))])"
    by (simp add: out)
  then have "image_size J = (1, 1)" and
    "inst_fields J = [(''pred_classes'', IntField [1, 0]),
                      (''pred_masks'', MaskField [[[[sigmoid 1]]], [[[sigmoid 2]]]])]"
    by (simp_all add: e) (simp_all add: I_def)
  then have "J = \<lparr>image_size = (1, 1),
         inst_fields = [(''pred_classes'', IntField [1, 0]),
                        (''pred_masks'', MaskField [[[[sigmoid 1]]], [[[sigmoid 2]]]])]\<rparr>"
    by (cases J) simp
  with r ok show ?thesis by (simp add: out t_def I_def)
qed

section \<open>Tabulated volumes\<close>

lemma tab3_nth:
  "n < N \<Longrightarrow> i < S \<Longrightarrow> j < S \<Longrightarrow> tab3 N S f ! n ! i ! j = f n i j"
  by (simp add: tab3_def)

lemma length_tab3 [simp]: "length (tab3 N S f) = N"
  by (simp add: tab3_def)

lemma tab3_map: "map (map (map h)) (tab3 N S f) = tab3 N S (\<lambda>n i j. h (f n i j))"
  by (simp add: tab3_def comp_def)

lemma tab3_map2:
  "map2 (map2 (map2 h)) (tab3 N S f) (tab3 N S g) = tab3 N S (\<lambda>n i j. h (f n i j) (g n i j))"
  by (simp add: tab3_def map2_map_map)

lemma tab3_rows:
  "map2 (\<lambda>g c. map (map (\<lambda>l. h l c)) g) (tab3 N S f) (map w [0..<N])
     = tab3 N S (\<lambda>n i j. h (f n i j) (w n))"
  by (simp add: tab3_def map2_map_map comp_def)

lemma tab3_cong:
  assumes "\<And>n i j. n < N \<Longrightarrow> i < S \<Longrightarrow> j < S \<Longrightarrow> f n i j = g n i j"
  shows "tab3 N S f = tab3 N S g"
  unfolding tab3_def using assms by (intro map_cong refl) simp

lemma tab3_shape: "map (map length) (tab3 N S f) = replicate N (replicate S S)"
  by (simp add: tab3_def comp_def map_replicate_const)

lemma tab3_append:
  "tab3 N S f @ tab3 M S g = tab3 (N + M) S (\<lambda>n. if n < N then f n else g (n - N))"
proof (rule nth_equalityI)
  show "length (tab3 N S f @ tab3 M S g)
          = length (tab3 (N + M) S (\<lambda>n. if n < N then f n else g (n - N)))"
    by simp
next
  fix k assume "k < length (tab3 N S f @ tab3 M S g)"
  then have k: "k < N + M" by simp
  show "(tab3 N S f @ tab3 M S g) ! k = tab3 (N + M) S (\<lambda>n. if n < N then f n else g (n - N)) ! k"
  proof (cases "k < N")
    case True
    then show ?thesis using k by (simp add: nth_append tab3_def)
  next
    case False
    then have "k - N < M" using k by simp
    then show ?thesis using k False by (simp add: nth_append tab3_def)
  qed
qed

lemma is_tabI: "(\<And>n i j. n < N \<Longrightarrow> i < S \<Longrightarrow> j < S \<Longrightarrow> P (f n i j)) \<Longrightarrow> is_tab P N S (tab3 N S f)"
  unfolding is_tab_def by blast

lemma is_tab_nth:
  assumes "is_tab P N S v"
  shows "v = tab3 N S (\<lambda>n i j. v ! n ! i ! j)" and "\<forall>n<N. \<forall>i<S. \<forall>j<S. P (v ! n ! i ! j)"
proof -
  from assms obtain f where v: "v = tab3 N S f" and p: "\<forall>n<N. \<forall>i<S. \<forall>j<S. P (f n i j)"
    unfolding is_tab_def by blast
  show "v = tab3 N S (\<lambda>n i j. v ! n ! i ! j)"
    unfolding v by (rule tab3_cong) (simp add: tab3_nth)
  show "\<forall>n<N. \<forall>i<S. \<forall>j<S. P (v ! n ! i ! j)"
    unfolding v using p by (simp add: tab3_nth)
qed

lemma is_tab_length: "is_tab P N S v \<Longrightarrow> length v = N"
  unfolding is_tab_def by auto

lemma is_tab_empty: "is_tab P 0 S []"
  unfolding is_tab_def tab3_def by simp

lemma is_tab_append:
  assumes "is_tab P N S a" and "is_tab P M S b"
  shows "is_tab P (N + M) S (a @ b)"
proof -
  from assms obtain f g where a: "a = tab3 N S f" and b: "b = tab3 M S g"
    and pf: "\<forall>n<N. \<forall>i<S. \<forall>j<S. P (f n i j)" and pg: "\<forall>n<M. \<forall>i<S. \<forall>j<S. P (g n i j)"
    unfolding is_tab_def by blast
  have "is_tab P (N + M) S (tab3 (N + M) S (\<lambda>n. if n < N then f n else g (n - N)))"
  proof (rule is_tabI)
    fix n i j assume "n < N + M" "i < S" "j < S"
    then show "P ((if n < N then f n else g (n - N)) i j)"
      using pf pg by (cases "n < N") simp_all
  qed
  then show ?thesis unfolding a b tab3_append .
qed

lemma is_tab_concat:
  assumes "\<forall>x\<in>set xs. is_tab P (len x) S (F x)"
  shows "is_tab P (sum_list (map len xs)) S (concat (map F xs))"
  using assms
proof (induction xs)
  case Nil
  show ?case by (simp add: is_tab_empty)
next
  case (Cons x xs)
  then have "is_tab P (len x) S (F x)" and "is_tab P (sum_list (map len xs)) S (concat (map F xs))"
    by simp_all
  then have "is_tab P (len x + sum_list (map len xs)) S (F x @ concat (map F xs))"
    by (rule is_tab_append)
  then show ?case by simp
qed

lemma is_tab_map:
  assumes "is_tab P N S v" and "\<And>x. P x \<Longrightarrow> Q (h x)"
  shows "is_tab Q N S (map (map (map h)) v)"
proof -
  from assms(1) obtain f where v: "v = tab3 N S f" and p: "\<forall>n<N. \<forall>i<S. \<forall>j<S. P (f n i j)"
    unfolding is_tab_def by blast
  show ?thesis unfolding v tab3_map using p assms(2) by (intro is_tabI) simp
qed

lemma is_tab_map2:
  assumes "is_tab P N S a" and "is_tab Q N S b" and "\<And>x y. P x \<Longrightarrow> Q y \<Longrightarrow> T (h x y)"
  shows "is_tab T N S (map2 (map2 (map2 h)) a b)"
proof -
  from assms(1) obtain f where a: "a = tab3 N S f" and p: "\<forall>n<N. \<forall>i<S. \<forall>j<S. P (f n i j)"
    unfolding is_tab_def by blast
  from assms(2) obtain g where b: "b = tab3 N S g" and q: "\<forall>n<N. \<forall>i<S. \<forall>j<S. Q (g n i j)"
    unfolding is_tab_def by blast
  show ?thesis unfolding a b tab3_map2 using p q assms(3) by (intro is_tabI) simp
qed

lemma is_tab_weaken:
  assumes "is_tab P N S v" and "\<And>x. P x \<Longrightarrow> Q x"
  shows "is_tab Q N S v"
  using assms unfolding is_tab_def by blast

lemma sum_list_concat_map:
  fixes xss :: "real list list"
  shows "sum_list (concat xss) = sum_list (map sum_list xss)"
  by (induction xss) simp_all

lemma sum_list_upt_sum:
  fixes f :: "nat \<Rightarrow> real"
  shows "sum_list (map f [0..<n]) = (\<Sum>k<n. f k)"
  by (simp add: interv_sum_list_conv_sum_set_nat atLeast0LessThan)

lemma sum_tab3:
  fixes g :: "nat \<Rightarrow> nat \<Rightarrow> nat \<Rightarrow> real"
  shows "sum_list (concat (concat (tab3 N S g))) = (\<Sum>n<N. \<Sum>i<S. \<Sum>j<S. g n i j)"
  by (simp add: tab3_def sum_list_concat_map map_concat comp_def sum_list_upt_sum)

lemma length_concat_const:
  "\<forall>x\<in>set xss. length x = c \<Longrightarrow> length (concat xss) = length xss * c"
  by (induction xss) simp_all

lemma length_concat_tab3: "length (concat (concat (tab3 N S g))) = N * S * S"
proof -
  have 1: "length (concat (tab3 N S g)) = N * S"
    by (subst length_concat_const [where c = S]) (auto simp: tab3_def)
  have "\<forall>r\<in>set (concat (tab3 N S g)). length r = S"
    by (auto simp: tab3_def)
  then have "length (concat (concat (tab3 N S g))) = length (concat (tab3 N S g)) * S"
    by (rule length_concat_const)
  with 1 show ?thesis by simp
qed

lemma concat_tab3_Some:
  "concat (concat (tab3 N S (\<lambda>n i j. Some (g n i j)))) = map Some (concat (concat (tab3 N S g)))"
  by (simp add: tab3_def map_concat comp_def)

lemma torch_mean_tab3:
  assumes "0 < N" and "0 < S"
  shows "torch_mean (tab3 N S (\<lambda>n i j. Some (g n i j)))
           = Some ((\<Sum>n<N. \<Sum>i<S. \<Sum>j<S. g n i j) / real (N * S * S))"
proof -
  define xs where "xs = concat (concat (tab3 N S g))"
  have l: "length xs = N * S * S" by (simp add: xs_def length_concat_tab3)
  then have ne: "xs \<noteq> []" using assms by auto
  have s: "sum_list xs = (\<Sum>n<N. \<Sum>i<S. \<Sum>j<S. g n i j)" by (simp add: xs_def sum_tab3)
  have "torch_mean (tab3 N S (\<lambda>n i j. Some (g n i j)))
          = (if map Some xs = [] \<or> None \<in> set (map Some xs) then None
             else Some (sum_list (map the (map Some xs)) / real (length (map Some xs))))"
    unfolding torch_mean_def concat_tab3_Some xs_def Let_def ..
  also have "\<dots> = Some (sum_list xs / real (length xs))"
    using ne by (auto simp: comp_def)
  finally show ?thesis by (simp add: l s)
qed

lemma grid_tab:
  assumes "length g = S" and "\<forall>i<S. length (g ! i) = S"
  shows "g = map (\<lambda>i. map (\<lambda>j. g ! i ! j) [0..<S]) [0..<S]"
proof (rule nth_equalityI)
  show "length g = length (map (\<lambda>i. map (\<lambda>j. g ! i ! j) [0..<S]) [0..<S])"
    using assms(1) by simp
next
  fix i assume "i < length g"
  then have i: "i < S" using assms(1) by simp
  with assms(2) have "length (g ! i) = S" by blast
  then have "g ! i = map (\<lambda>j. g ! i ! j) [0..<S]"
    by (intro nth_equalityI) simp_all
  then show "g ! i = map (\<lambda>i. map (\<lambda>j. g ! i ! j) [0..<S]) [0..<S] ! i"
    using i by simp
qed

lemma vol_tab:
  assumes "length v = N" and "\<forall>n<N. length (v ! n) = S \<and> (\<forall>i<S. length (v ! n ! i) = S)"
  shows "v = tab3 N S (\<lambda>n i j. v ! n ! i ! j)"
proof (rule nth_equalityI)
  show "length v = length (tab3 N S (\<lambda>n i j. v ! n ! i ! j))" using assms(1) by simp
next
  fix n assume "n < length v"
  then have n: "n < N" using assms(1) by simp
  with assms(2) have "length (v ! n) = S" "\<forall>i<S. length (v ! n ! i) = S" by blast+
  then have "v ! n = map (\<lambda>i. map (\<lambda>j. v ! n ! i ! j) [0..<S]) [0..<S]"
    by (rule grid_tab)
  then show "v ! n = tab3 N S (\<lambda>n i j. v ! n ! i ! j) ! n"
    using n by (simp add: tab3_def)
qed

lemma crop_and_resize_tab:
  assumes "length polys = n" and "length boxes = n"
  shows "crop_and_resize R polys boxes S = tab3 n S (\<lambda>k i j. R (polys ! k) (boxes ! k) S i j)"
  using assms by (intro nth_equalityI) (simp_all add: crop_and_resize_def tab3_def)

lemma concat_map_filter_nonempty:
  assumes "\<forall>x\<in>set xs. \<not> P x \<longrightarrow> F x = []"
  shows "concat (map F (filter P xs)) = concat (map F xs)"
  using assms by (induction xs) simp_all

section \<open>The loop over the images of a batch\<close>

lemma get_boxes_length:
  assumes "wf_instances I" and "get_boxes I name = Inr xs"
  shows "length xs = the_len I"
proof -
  from assms(2) have "map_of (inst_fields I) name = Some (BoxField xs)"
    by (simp add: get_boxes_def split: option.splits field.splits)
  from wf_field_len [OF assms(1) this] show ?thesis by simp
qed

lemma get_polys_length:
  assumes "wf_instances I" and "get_polys I name = Inr xs"
  shows "length xs = the_len I"
proof -
  from assms(2) have "map_of (inst_fields I) name = Some (PolyField xs)"
    by (simp add: get_polys_def split: option.splits field.splits)
  from wf_field_len [OF assms(1) this] show ?thesis by simp
qed

lemma wf_training_fields:
  assumes "wf_training I"
  shows "len_instances I = Inr (the_len I)"
    and "get_ints I ''gt_classes'' = Inr (the_ints I ''gt_classes'')"
    and "get_boxes I ''gt_boxes'' = Inr (the_boxes I ''gt_boxes'')"
    and "get_boxes I ''proposal_boxes'' = Inr (the_boxes I ''proposal_boxes'')"
    and "get_polys I ''gt_masks'' = Inr (the_polys I ''gt_masks'')"
proof -
  from assms have ne: "inst_fields I \<noteq> []"
    and c: "\<not> isl (get_ints I ''gt_classes'')" and g: "\<not> isl (get_boxes I ''gt_boxes'')"
    and p: "\<not> isl (get_boxes I ''proposal_boxes'')" and m: "\<not> isl (get_polys I ''gt_masks'')"
    by (simp_all add: wf_training_def)
  show "len_instances I = Inr (the_len I)" using ne by (rule len_instances_the_len)
  show "get_ints I ''gt_classes'' = Inr (the_ints I ''gt_classes'')"
    using c by (cases "get_ints I ''gt_classes''") (simp_all add: the_ints_def)
  show "get_boxes I ''gt_boxes'' = Inr (the_boxes I ''gt_boxes'')"
    using g by (cases "get_boxes I ''gt_boxes''") (simp_all add: the_boxes_def)
  show "get_boxes I ''proposal_boxes'' = Inr (the_boxes I ''proposal_boxes'')"
    using p by (cases "get_boxes I ''proposal_boxes''") (simp_all add: the_boxes_def)
  show "get_polys I ''gt_masks'' = Inr (the_polys I ''gt_masks'')"
    using m by (cases "get_polys I ''gt_masks''") (simp_all add: the_polys_def)
qed

lemma wf_training_lengths:
  assumes "wf_training I"
  shows "length (the_ints I ''gt_classes'') = the_len I"
    and "length (the_boxes I ''gt_boxes'') = the_len I"
    and "length (the_boxes I ''proposal_boxes'') = the_len I"
    and "length (the_polys I ''gt_masks'') = the_len I"
proof -
  from assms have w: "wf_instances I" by (simp add: wf_training_def)
  note f = wf_training_fields [OF assms]
  show "length (the_ints I ''gt_classes'') = the_len I"
    using w f(2) by (rule get_ints_length)
  show "length (the_boxes I ''gt_boxes'') = the_len I"
    using w f(3) by (rule get_boxes_length)
  show "length (the_boxes I ''proposal_boxes'') = the_len I"
    using w f(4) by (rule get_boxes_length)
  show "length (the_polys I ''gt_masks'') = the_len I"
    using w f(5) by (rule get_polys_length)
qed

lemma distinct_first_polygons_total:
  assumes "[] \<notin> set polys"
  shows "\<exists>out. distinct_first_polygons polys seen = Inr out"
  using assms
proof (induction polys arbitrary: seen)
  case Nil
  show ?case by simp
next
  case (Cons x xs)
  then obtain p ps where x: "x = p # ps" by (cases x) auto
  from Cons.prems have "[] \<notin> set xs" by simp
  from Cons.IH [OF this] show ?case by (simp add: x)
qed

lemma per_ins_overlap_masks_image:
  assumes "wf_training I"
  shows "per_ins_overlap_masks R S (the_len I) (the_polys I ''gt_masks'')
           (the_boxes I ''proposal_boxes'') (image_gt_masks R S I) = Inr (image_overlap R S I)"
proof -
  from assms have "[] \<notin> set (the_polys I ''gt_masks'')" by (simp add: wf_training_def)
  then obtain out where "distinct_first_polygons (the_polys I ''gt_masks'') [] = Inr out"
    using distinct_first_polygons_total by blast
  then obtain v where v: "per_ins_overlap_masks R S (the_len I) (the_polys I ''gt_masks'')
           (the_boxes I ''proposal_boxes'') (image_gt_masks R S I) = Inr v"
    by (simp add: per_ins_overlap_masks_def and_then_def Let_def)
  then show ?thesis by (simp add: image_overlap_def)
qed

lemma img_roi_penalty_image:
  assumes "wf_training I"
  shows "img_roi_penalty (the_len I) (the_boxes I ''gt_boxes'') (the_boxes I ''proposal_boxes'')
           = Inr (image_roi I)"
    and "length (image_roi I) = the_len I"
proof -
  from img_roi_penalty_total [OF wf_training_lengths(3,2) [OF assms]]
  obtain out where o: "img_roi_penalty (the_len I) (the_boxes I ''gt_boxes'')
                         (the_boxes I ''proposal_boxes'') = Inr out"
    and l: "length out = the_len I" by blast
  then have "image_roi I = out" by (simp add: image_roi_def)
  with o l show "img_roi_penalty (the_len I) (the_boxes I ''gt_boxes'')
           (the_boxes I ''proposal_boxes'') = Inr (image_roi I)"
    and "length (image_roi I) = the_len I" by simp_all
qed

lemma image_step_result:
  assumes "wf_training I"
  shows "image_step R D agn S I acc =
     Inr (if the_len I = 0 then acc
          else \<lparr>gt_classes_acc = (if agn then gt_classes_acc acc
                                  else gt_classes_acc acc @ [the_ints I ''gt_classes'']),
                gt_masks_acc = gt_masks_acc acc @ [image_gt_masks R S I],
                boundary_penalty_acc = boundary_penalty_acc acc
                   @ map (bound_pixels D S) (image_gt_masks R S I),
                roi_penalty_acc = roi_penalty_acc acc @ [image_roi I],
                overlap_penalty_acc = overlap_penalty_acc acc @ [image_overlap R S I]\<rparr>)"
  unfolding image_step_def wf_training_fields [OF assms]
  using per_ins_overlap_masks_image [OF assms, of R S] img_roi_penalty_image [OF assms]
  by (simp add: and_then_def Let_def image_gt_masks_def [symmetric])

lemma image_loop_result:
  assumes "list_all wf_training insts"
  shows "image_loop R D agn S insts acc =
     Inr \<lparr>gt_classes_acc = gt_classes_acc acc
             @ (if agn then []
                else map (\<lambda>I. the_ints I ''gt_classes'') (filter (\<lambda>I. the_len I \<noteq> 0) insts)),
          gt_masks_acc = gt_masks_acc acc
             @ map (image_gt_masks R S) (filter (\<lambda>I. the_len I \<noteq> 0) insts),
          boundary_penalty_acc = boundary_penalty_acc acc
             @ concat (map (\<lambda>I. map (bound_pixels D S) (image_gt_masks R S I))
                         (filter (\<lambda>I. the_len I \<noteq> 0) insts)),
          roi_penalty_acc = roi_penalty_acc acc
             @ map image_roi (filter (\<lambda>I. the_len I \<noteq> 0) insts),
          overlap_penalty_acc = overlap_penalty_acc acc
             @ map (image_overlap R S) (filter (\<lambda>I. the_len I \<noteq> 0) insts)\<rparr>"
  using assms
proof (induction insts arbitrary: acc)
  case Nil
  show ?case by simp
next
  case (Cons I insts)
  then have w: "wf_training I" and rest: "list_all wf_training insts" by simp_all
  show ?case
    by (simp add: image_step_result [OF w] and_then_def Cons.IH [OF rest])
qed

lemma set_combinations2:
  "c \<in> set (combinations2 xs) \<Longrightarrow> fst c \<in> set xs \<and> snd c \<in> set xs"
  by (induction xs) auto

lemma combinations2_nonempty: "1 < length xs \<Longrightarrow> combinations2 xs \<noteq> []"
  by (cases xs rule: combinations2.cases) (auto simp: neq_Nil_conv)

lemma foldl_vol_add_tab:
  assumes "is_tab (\<lambda>c. 0 \<le> c) n S a" and "\<forall>t\<in>set ts. is_tab (\<lambda>c. 0 \<le> c) n S t"
  shows "is_tab (\<lambda>c. 0 \<le> c) n S (foldl vol_add a ts)"
  using assms
proof (induction ts arbitrary: a)
  case Nil
  then show ?case by simp
next
  case (Cons t ts)
  then have "is_tab (\<lambda>c. 0 \<le> c) n S t" by simp
  with Cons.prems(1) have "is_tab (\<lambda>c. 0 \<le> c) n S (vol_add a t)"
    unfolding vol_add_def by (rule is_tab_map2) simp
  moreover from Cons.prems(2) have "\<forall>t\<in>set ts. is_tab (\<lambda>c. 0 \<le> c) n S t" by simp
  ultimately show ?case using Cons.IH by simp
qed

lemma py_sum_tab:
  assumes "ts \<noteq> []" and "\<forall>t\<in>set ts. is_tab (\<lambda>c. 0 \<le> c) n S t"
  shows "is_tab (\<lambda>c. 0 \<le> c) n S (py_sum ts)"
proof -
  from assms(1) obtain t rest where ts: "ts = t # rest" by (cases ts) auto
  with assms(2) have t: "is_tab (\<lambda>c. 0 \<le> c) n S t"
    and rest: "\<forall>t\<in>set rest. is_tab (\<lambda>c. 0 \<le> c) n S t" by simp_all
  from t have "is_tab (\<lambda>c. 0 \<le> c) n S (map (map (map ((+) 0))) t)"
    by (rule is_tab_map) simp
  then have "is_tab (\<lambda>c. 0 \<le> c) n S (foldl vol_add (map (map (map ((+) 0))) t) rest)"
    using rest by (rule foldl_vol_add_tab)
  then show ?thesis by (simp add: py_sum_def ts)
qed

lemma crop_and_resize_is_tab:
  assumes "length polys = n" and "length boxes = n"
  shows "is_tab (\<lambda>_. True) n S (crop_and_resize R polys boxes S)"
  unfolding crop_and_resize_tab [OF assms] by (rule is_tabI) simp

lemma to_float_is_tab:
  assumes "is_tab (\<lambda>_. True) n S v"
  shows "is_tab (\<lambda>c. 0 \<le> c) n S (to_float v)"
  unfolding to_float_def using assms by (rule is_tab_map) simp

lemma per_ins_overlap_tab:
  assumes "length props = n" and "is_tab (\<lambda>_. True) n S gt"
    and "per_ins_overlap_masks R S n polys props gt = Inr v"
  shows "is_tab (\<lambda>c. 0 \<le> c) n S v"
proof -
  from assms(3) obtain seen where seen: "distinct_first_polygons polys [] = Inr seen"
    by (cases "distinct_first_polygons polys []")
       (simp_all add: per_ins_overlap_masks_def and_then_def)
  define img_masks where
    "img_masks = map (\<lambda>p. to_float (crop_and_resize R (replicate n [p]) props S)) seen"
  have v: "v = (if 1 < length img_masks
               then vol_mul (py_sum (map (\<lambda>c. vol_mul (fst c) (snd c)) (combinations2 img_masks)))
                            (to_float gt)
               else map (map (map (\<lambda>_. 0))) gt)"
    using assms(3) seen
    by (auto simp: per_ins_overlap_masks_def and_then_def Let_def img_masks_def)
  have masks: "is_tab (\<lambda>c. 0 \<le> c) n S m" if "m \<in> set img_masks" for m
  proof -
    from that obtain p where "m = to_float (crop_and_resize R (replicate n [p]) props S)"
      by (auto simp: img_masks_def)
    moreover have "is_tab (\<lambda>_. True) n S (crop_and_resize R (replicate n [p]) props S)"
      using assms(1) by (intro crop_and_resize_is_tab) simp_all
    ultimately show ?thesis by (simp add: to_float_is_tab)
  qed
  show ?thesis
  proof (cases "1 < length img_masks")
    case True
    have "\<forall>t\<in>set (map (\<lambda>c. vol_mul (fst c) (snd c)) (combinations2 img_masks)).
            is_tab (\<lambda>c. 0 \<le> c) n S t"
    proof
      fix t assume "t \<in> set (map (\<lambda>c. vol_mul (fst c) (snd c)) (combinations2 img_masks))"
      then obtain c where c: "c \<in> set (combinations2 img_masks)" and t: "t = vol_mul (fst c) (snd c)"
        by auto
      from set_combinations2 [OF c] masks
      have "is_tab (\<lambda>c. 0 \<le> c) n S (fst c)" "is_tab (\<lambda>c. 0 \<le> c) n S (snd c)" by blast+
      then show "is_tab (\<lambda>c. 0 \<le> c) n S t"
        unfolding t vol_mul_def by (rule is_tab_map2) simp
    qed
    moreover have "map (\<lambda>c. vol_mul (fst c) (snd c)) (combinations2 img_masks) \<noteq> []"
      using combinations2_nonempty [OF True] by simp
    ultimately have "is_tab (\<lambda>c. 0 \<le> c) n S
        (py_sum (map (\<lambda>c. vol_mul (fst c) (snd c)) (combinations2 img_masks)))"
      by (intro py_sum_tab)
    moreover have "is_tab (\<lambda>c. 0 \<le> c) n S (to_float gt)"
      using assms(2) by (rule to_float_is_tab)
    ultimately have "is_tab (\<lambda>c. 0 \<le> c) n S
        (vol_mul (py_sum (map (\<lambda>c. vol_mul (fst c) (snd c)) (combinations2 img_masks)))
           (to_float gt))"
      unfolding vol_mul_def [of "py_sum _"] by (rule is_tab_map2) simp
    then show ?thesis using True by (simp add: v)
  next
    case False
    have "is_tab (\<lambda>c. 0 \<le> c) n S (map (map (map (\<lambda>_. 0::real))) gt)"
      using assms(2) by (rule is_tab_map) simp
    then show ?thesis using False by (simp add: v)
  qed
qed

lemma image_gt_masks_tab:
  assumes "wf_training I"
  shows "is_tab (\<lambda>_. True) (the_len I) S (image_gt_masks R S I)"
  unfolding image_gt_masks_def
  using wf_training_lengths(4,3) [OF assms] by (rule crop_and_resize_is_tab)

lemma image_overlap_tab:
  assumes "wf_training I"
  shows "is_tab (\<lambda>c. 0 \<le> c) (the_len I) S (image_overlap R S I)"
  using wf_training_lengths(3) [OF assms] image_gt_masks_tab [OF assms]
    per_ins_overlap_masks_image [OF assms]
  by (rule per_ins_overlap_tab)

lemma empty_image:
  assumes "wf_training I" and "the_len I = 0"
  shows "the_ints I ''gt_classes'' = []" and "image_gt_masks R S I = []"
    and "image_roi I = []" and "image_overlap R S I = []"
proof -
  show "the_ints I ''gt_classes'' = []"
    using wf_training_lengths(1) [OF assms(1)] assms(2) by simp
  show "image_gt_masks R S I = []"
    using is_tab_length [OF image_gt_masks_tab [OF assms(1), of S R]] assms(2) by simp
  show "image_roi I = []"
    using img_roi_penalty_image(2) [OF assms(1)] assms(2) by simp
  show "image_overlap R S I = []"
    using is_tab_length [OF image_overlap_tab [OF assms(1), of S R]] assms(2) by simp
qed

section \<open>The training loss of a non-empty batch\<close>

lemma filter_nonzero_nonempty:
  fixes f :: "'a \<Rightarrow> nat"
  shows "0 < sum_list (map f xs) \<Longrightarrow> filter (\<lambda>x. f x \<noteq> 0) xs \<noteq> []"
  by (induction xs) (auto split: if_splits)

lemma cat_nonempty: "xs \<noteq> [] \<Longrightarrow> cat xs = Inr (concat xs)"
  by (cases xs; cases "tl xs") (auto simp: cat_def torch_cat_def split: list.splits)

lemma batch_facts:
  assumes all: "list_all wf_training insts"
  shows "concat (map (image_gt_masks R S) (filter (\<lambda>I. the_len I \<noteq> 0) insts)) = batch_masks R S insts"
    and "concat (map (\<lambda>I. map (bound_pixels D S) (image_gt_masks R S I))
            (filter (\<lambda>I. the_len I \<noteq> 0) insts)) = map (bound_pixels D S) (batch_masks R S insts)"
    and "concat (map image_roi (filter (\<lambda>I. the_len I \<noteq> 0) insts)) = batch_roi_weights insts"
    and "concat (map (image_overlap R S) (filter (\<lambda>I. the_len I \<noteq> 0) insts))
           = concat (map (image_overlap R S) insts)"
    and "concat (map (\<lambda>I. the_ints I ''gt_classes'') (filter (\<lambda>I. the_len I \<noteq> 0) insts))
           = concat (map (\<lambda>I. the_ints I ''gt_classes'') insts)"
proof -
  have w: "wf_training I" if "I \<in> set insts" for I
    using all that by (simp add: list_all_iff)
  show m: "concat (map (image_gt_masks R S) (filter (\<lambda>I. the_len I \<noteq> 0) insts)) = batch_masks R S insts"
    unfolding batch_masks_def
    by (rule concat_map_filter_nonempty) (simp add: empty_image w)
  have "concat (map (\<lambda>I. map (bound_pixels D S) (image_gt_masks R S I))
            (filter (\<lambda>I. the_len I \<noteq> 0) insts))
      = map (bound_pixels D S) (concat (map (image_gt_masks R S) (filter (\<lambda>I. the_len I \<noteq> 0) insts)))"
    by (simp add: map_concat comp_def)
  then show "concat (map (\<lambda>I. map (bound_pixels D S) (image_gt_masks R S I))
            (filter (\<lambda>I. the_len I \<noteq> 0) insts)) = map (bound_pixels D S) (batch_masks R S insts)"
    by (simp only: m)
  show "concat (map image_roi (filter (\<lambda>I. the_len I \<noteq> 0) insts)) = batch_roi_weights insts"
    unfolding batch_roi_weights_def
    by (rule concat_map_filter_nonempty) (simp add: empty_image w)
  show "concat (map (image_overlap R S) (filter (\<lambda>I. the_len I \<noteq> 0) insts))
           = concat (map (image_overlap R S) insts)"
    by (rule concat_map_filter_nonempty) (simp add: empty_image w)
  show "concat (map (\<lambda>I. the_ints I ''gt_classes'') (filter (\<lambda>I. the_len I \<noteq> 0) insts))
           = concat (map (\<lambda>I. the_ints I ''gt_classes'') insts)"
    by (rule concat_map_filter_nonempty) (simp add: empty_image w)
qed

lemma batch_shapes:
  assumes all: "list_all wf_training insts"
  shows "is_tab (\<lambda>_. True) (sum_list (map the_len insts)) S (batch_masks R S insts)"
    and "is_tab (\<lambda>c. 0 \<le> c) (sum_list (map the_len insts)) S (concat (map (image_overlap R S) insts))"
    and "length (batch_roi_weights insts) = sum_list (map the_len insts)"
    and "length (concat (map (\<lambda>I. the_ints I ''gt_classes'') insts)) = sum_list (map the_len insts)"
proof -
  have w: "wf_training I" if "I \<in> set insts" for I
    using all that by (simp add: list_all_iff)
  show "is_tab (\<lambda>_. True) (sum_list (map the_len insts)) S (batch_masks R S insts)"
    unfolding batch_masks_def by (rule is_tab_concat) (simp add: image_gt_masks_tab w)
  show "is_tab (\<lambda>c. 0 \<le> c) (sum_list (map the_len insts)) S (concat (map (image_overlap R S) insts))"
    by (rule is_tab_concat) (simp add: image_overlap_tab w)
  have "map (\<lambda>I. length (image_roi I)) insts = map the_len insts"
    by (rule map_cong) (simp_all add: img_roi_penalty_image(2) w)
  then have "sum_list (map (\<lambda>I. length (image_roi I)) insts) = sum_list (map the_len insts)"
    by (rule arg_cong)
  moreover have "length (batch_roi_weights insts) = sum_list (map (\<lambda>I. length (image_roi I)) insts)"
    by (simp add: batch_roi_weights_def length_concat comp_def)
  ultimately show "length (batch_roi_weights insts) = sum_list (map the_len insts)"
    by (rule trans [rotated])
  have "map (\<lambda>I. length (the_ints I ''gt_classes'')) insts = map the_len insts"
    by (rule map_cong) (simp_all add: wf_training_lengths w)
  then have "sum_list (map (\<lambda>I. length (the_ints I ''gt_classes'')) insts)
               = sum_list (map the_len insts)"
    by (rule arg_cong)
  moreover have "length (concat (map (\<lambda>I. the_ints I ''gt_classes'') insts))
               = sum_list (map (\<lambda>I. length (the_ints I ''gt_classes'')) insts)"
    by (simp add: length_concat comp_def)
  ultimately show "length (concat (map (\<lambda>I. the_ints I ''gt_classes'') insts))
               = sum_list (map the_len insts)"
    by (rule trans [rotated])
qed

lemma batch_logits_selected:
  assumes wf: "wf_tensor4 t"
    and len: "length (concat (map (\<lambda>I. the_ints I ''gt_classes'') insts)) = dim0 t"
    and cls: "dim1 t = 1 \<or> (\<forall>c\<in>set (concat (map (\<lambda>I. the_ints I ''gt_classes'') insts)). c < dim1 t)"
  shows "(if dim1 t = 1 then Inr (map (\<lambda>r. r ! 0) (elems t))
          else index_classes t (concat (map (\<lambda>I. the_ints I ''gt_classes'') insts)))
         = Inr (batch_logits t insts)"
proof (cases "dim1 t = 1")
  case True
  have "map (\<lambda>r. r ! 0) (elems t) = map (\<lambda>g. elems t ! g ! 0) [0..<dim0 t]"
    using wf by (intro nth_equalityI) (simp_all add: wf_tensor4_def)
  then show ?thesis using True by (simp add: batch_logits_def)
next
  case False
  with cls have "\<forall>c\<in>set (concat (map (\<lambda>I. the_ints I ''gt_classes'') insts)). c < dim1 t"
    by blast
  from index_classes_aligned [OF len this] False show ?thesis
    by (simp add: batch_logits_def)
qed

lemma batch_logits_tab:
  assumes wf: "wf_tensor4 t" and sq: "dim2 t = dim3 t"
    and len: "length (concat (map (\<lambda>I. the_ints I ''gt_classes'') insts)) = dim0 t"
    and cls: "dim1 t = 1 \<or> (\<forall>c\<in>set (concat (map (\<lambda>I. the_ints I ''gt_classes'') insts)). c < dim1 t)"
  shows "batch_logits t insts
           = tab3 (dim0 t) (dim2 t) (\<lambda>n i j. batch_logits t insts ! n ! i ! j)"
proof (rule vol_tab)
  show "length (batch_logits t insts) = dim0 t" by (simp add: batch_logits_def)
next
  show "\<forall>n<dim0 t. length (batch_logits t insts ! n) = dim2 t \<and>
          (\<forall>i<dim2 t. length (batch_logits t insts ! n ! i) = dim2 t)"
  proof (intro allI impI)
    fix n assume n: "n < dim0 t"
    define c where "c = (if dim1 t = 1 then 0
                         else concat (map (\<lambda>I. the_ints I ''gt_classes'') insts) ! n)"
    have c: "c < dim1 t"
    proof (cases "dim1 t = 1")
      case True
      then show ?thesis by (simp add: c_def)
    next
      case False
      have "concat (map (\<lambda>I. the_ints I ''gt_classes'') insts) ! n
              \<in> set (concat (map (\<lambda>I. the_ints I ''gt_classes'') insts))"
        using n len by (intro nth_mem) simp
      with cls False show ?thesis by (auto simp: c_def)
    qed
    have row: "batch_logits t insts ! n = elems t ! n ! c"
      using n by (simp add: batch_logits_def c_def)
    have "elems t ! n \<in> set (elems t)"
      using n wf by (intro nth_mem) (simp add: wf_tensor4_def)
    with wf have r: "length (elems t ! n) = dim1 t"
      and g: "\<forall>g\<in>set (elems t ! n). length g = dim2 t \<and> (\<forall>row\<in>set g. length row = dim3 t)"
      unfolding wf_tensor4_def by blast+
    have "elems t ! n ! c \<in> set (elems t ! n)"
      using c r by (intro nth_mem) simp
    with g have l: "length (elems t ! n ! c) = dim2 t"
      and rows: "\<forall>row\<in>set (elems t ! n ! c). length row = dim3 t" by blast+
    have "length (elems t ! n ! c ! i) = dim2 t" if "i < dim2 t" for i
    proof -
      have "elems t ! n ! c ! i \<in> set (elems t ! n ! c)"
        using that l by (intro nth_mem) simp
      with rows sq show ?thesis by simp
    qed
    with l show "length (batch_logits t insts ! n) = dim2 t \<and>
          (\<forall>i<dim2 t. length (batch_logits t insts ! n ! i) = dim2 t)"
      by (simp add: row)
  qed
qed

lemma boundary_weights_tab:
  assumes "length masks = N"
  shows "boundary_where (map (bound_pixels D S) masks)
           = tab3 N S (\<lambda>n i j. boundary_where (map (bound_pixels D S) masks) ! n ! i ! j)"
  using assms by (intro vol_tab) (simp_all add: boundary_where_def)

lemma combine_tabs:
  fixes x y w0 w2 :: "nat \<Rightarrow> nat \<Rightarrow> nat \<Rightarrow> real" and w1 :: "nat \<Rightarrow> real"
  assumes "0 < N" and "0 < S"
  shows "(case bce_unweighted (tab3 N S x) (tab3 N S y) of
            Inl e \<Rightarrow> Inl e
          | Inr loss \<Rightarrow>
              Inr (torch_mean
                (map2 (map2 (map2 (\<lambda>a b. map_option ((+) a) b)))
                   (vol_add
                      (map (map (map (\<lambda>l. exp (- v0) * l + v0))) (vol_mul loss (tab3 N S w0)))
                      (map (map (map (\<lambda>l. exp (- v1) * l + v1)))
                         (weight_rows loss (map w1 [0..<N]))))
                   (map (map (map (map_option (\<lambda>l. exp (- v2) * l + v2))))
                      (weight_nan loss (tab3 N S (\<lambda>n i j. Some (w2 n i j))))))))
         = Inr (Some ((\<Sum>n<N. \<Sum>i<S. \<Sum>j<S.
                  (exp (- v0) * (bce_elem (x n i j) (y n i j) * w0 n i j) + v0
                   + (exp (- v1) * (bce_elem (x n i j) (y n i j) * w1 n) + v1)
                   + (exp (- v2) * (bce_elem (x n i j) (y n i j) * w2 n i j) + v2)))
                / real (N * S * S)))"
proof -
  define b where "b = (\<lambda>n i j. bce_elem (x n i j) (y n i j))"
  have loss: "bce_unweighted (tab3 N S x) (tab3 N S y) = Inr (tab3 N S b)"
    by (simp add: bce_unweighted_def tab3_shape tab3_map2 b_def)
  have l0: "vol_mul (tab3 N S b) (tab3 N S w0) = tab3 N S (\<lambda>n i j. b n i j * w0 n i j)"
    by (simp add: vol_mul_def tab3_map2)
  have l1: "weight_rows (tab3 N S b) (map w1 [0..<N]) = tab3 N S (\<lambda>n i j. b n i j * w1 n)"
    unfolding weight_rows_def by (rule tab3_rows)
  have l2: "weight_nan (tab3 N S b) (tab3 N S (\<lambda>n i j. Some (w2 n i j)))
              = tab3 N S (\<lambda>n i j. Some (b n i j * w2 n i j))"
    by (simp add: weight_nan_def tab3_map2)
  have w12: "vol_add
               (map (map (map (\<lambda>l. exp (- v0) * l + v0))) (tab3 N S (\<lambda>n i j. b n i j * w0 n i j)))
               (map (map (map (\<lambda>l. exp (- v1) * l + v1))) (tab3 N S (\<lambda>n i j. b n i j * w1 n)))
             = tab3 N S (\<lambda>n i j. exp (- v0) * (b n i j * w0 n i j) + v0
                                   + (exp (- v1) * (b n i j * w1 n) + v1))"
    by (simp add: vol_add_def tab3_map tab3_map2)
  have w3: "map2 (map2 (map2 (\<lambda>a b. map_option ((+) a) b)))
              (tab3 N S (\<lambda>n i j. exp (- v0) * (b n i j * w0 n i j) + v0
                                   + (exp (- v1) * (b n i j * w1 n) + v1)))
              (map (map (map (map_option (\<lambda>l. exp (- v2) * l + v2))))
                 (tab3 N S (\<lambda>n i j. Some (b n i j * w2 n i j))))
            = tab3 N S (\<lambda>n i j. Some (exp (- v0) * (b n i j * w0 n i j) + v0
                                   + (exp (- v1) * (b n i j * w1 n) + v1)
                                   + (exp (- v2) * (b n i j * w2 n i j) + v2)))"
    by (simp add: tab3_map tab3_map2)
  show ?thesis
    unfolding loss sum.case l0 l1 l2 w12 w3 torch_mean_tab3 [OF assms]
    by (simp only: b_def)
qed

lemma quad_tab:
  assumes "raw = tab3 N S c" and "\<forall>n<N. \<forall>i<S. \<forall>j<S. 0 \<le> c n i j"
  shows "map (map (map quad)) raw = tab3 N S (\<lambda>n i j. Some ((1 + sqrt (1 + 8 * c n i j)) / 2))"
  unfolding assms(1) tab3_map
proof (rule tab3_cong)
  fix n i j assume "n < N" "i < S" "j < S"
  with assms(2) have "0 \<le> c n i j" by blast
  then have "0 \<le> 1 + 8 * c n i j" by simp
  then show "quad (c n i j) = Some ((1 + sqrt (1 + 8 * c n i j)) / 2)"
    by (rule quad_value)
qed

lemma mask_rcnn_loss_run:
  assumes ok: "training_inputs_ok t insts"
  shows "mask_rcnn_loss R D (v0, v1, v2) t insts =
    (case bce_unweighted (batch_logits t insts) (batch_targets R (dim2 t) insts) of
       Inl e \<Rightarrow> Inl e
     | Inr loss \<Rightarrow>
         Inr (torch_mean
           (map2 (map2 (map2 (\<lambda>a b. map_option ((+) a) b)))
              (vol_add
                 (map (map (map (\<lambda>l. exp (- v0) * l + v0)))
                    (vol_mul loss (batch_boundary_weights R D (dim2 t) insts)))
                 (map (map (map (\<lambda>l. exp (- v1) * l + v1)))
                    (weight_rows loss (batch_roi_weights insts))))
              (map (map (map (map_option (\<lambda>l. exp (- v2) * l + v2))))
                 (weight_nan loss
                    (map (map (map quad)) (concat (map (image_overlap R (dim2 t)) insts))))))))"
proof -
  define S where "S = dim2 t"
  have sq': "dim3 t = S" using ok by (simp add: training_inputs_ok_def S_def)
  define F where "F = filter (\<lambda>I. the_len I \<noteq> 0) insts"
  from ok have wf: "wf_tensor4 t" and sq: "dim2 t = dim3 t" and Npos: "0 < dim0 t"
    and all: "list_all wf_training insts"
    and total: "sum_list (map the_len insts) = dim0 t"
    and cls: "dim1 t = 1 \<or>
       list_all (\<lambda>I. list_all (\<lambda>c. c < dim1 t) (the_ints I ''gt_classes'')) insts"
    by (simp_all add: training_inputs_ok_def)
  have Fne: "F \<noteq> []"
    unfolding F_def using Npos total by (intro filter_nonzero_nonempty) simp
  note bf = batch_facts [OF all, folded F_def]
  note bs = batch_shapes [OF all, unfolded total]
  define acc where "acc =
     \<lparr>gt_classes_acc = (if dim1 t = 1 then [] else map (\<lambda>I. the_ints I ''gt_classes'') F),
      gt_masks_acc = map (image_gt_masks R S) F,
      boundary_penalty_acc = map (bound_pixels D S) (batch_masks R S insts),
      roi_penalty_acc = map image_roi F,
      overlap_penalty_acc = map (image_overlap R S) F\<rparr>"
  have loop: "image_loop R D (dim1 t = 1) S insts no_penalties = Inr acc"
    unfolding image_loop_result [OF all] acc_def no_penalties_def F_def [symmetric] bf(2)
    by simp
  have mlen: "length (batch_masks R S insts) = dim0 t"
    using bs(1) by (rule is_tab_length)
  have b: "boundary_penalty_acc acc \<noteq> []"
    using mlen Npos by (auto simp: acc_def)
  have bw: "boundary_where (boundary_penalty_acc acc) = batch_boundary_weights R D S insts"
    by (simp add: acc_def batch_boundary_weights_def)
  have r: "torch_cat (roi_penalty_acc acc) = Inr (batch_roi_weights insts)"
    using Fne by (simp add: torch_cat_def acc_def bf(3))
  have o: "overlap_weights (overlap_penalty_acc acc)
             = Inr (map (map (map quad)) (concat (map (image_overlap R S) insts)))"
    using Fne by (simp add: overlap_weights_def torch_cat_def and_then_def acc_def bf(4))
  have g: "length (gt_masks_acc acc) \<noteq> 0"
    using Fne by (simp add: acc_def)
  have m: "cat (gt_masks_acc acc) = Inr (batch_masks R S insts)"
    using Fne by (simp add: acc_def cat_nonempty bf(1))
  have bound: "dim1 t = 1 \<or>
      (\<forall>c\<in>set (concat (map (\<lambda>I. the_ints I ''gt_classes'') insts)). c < dim1 t)"
    using cls by (auto simp: list_all_iff)
  have sel: "(if dim1 t = 1 then Inr (map (\<lambda>r. r ! 0) (elems t))
              else and_then (cat (gt_classes_acc acc)) (index_classes t))
             = Inr (batch_logits t insts)"
  proof (cases "dim1 t = 1")
    case True
    with batch_logits_selected [OF wf bs(4) bound] show ?thesis by simp
  next
    case False
    then have "cat (gt_classes_acc acc) = Inr (concat (map (\<lambda>I. the_ints I ''gt_classes'') insts))"
      using Fne by (simp add: acc_def cat_nonempty bf(5))
    with batch_logits_selected [OF wf bs(4) bound] False show ?thesis
      by (simp add: and_then_def)
  qed
  have selA: "map (\<lambda>r. r ! 0) (elems t) = batch_logits t insts" if "dim1 t = 1"
    using sel that by simp
  have selB: "and_then (cat (gt_classes_acc acc)) (index_classes t) = Inr (batch_logits t insts)"
    if "dim1 t \<noteq> 1"
    using sel that by simp
  have "mask_rcnn_loss R D (v0, v1, v2) t insts =
    (case bce_unweighted (batch_logits t insts) (batch_targets R S insts) of
       Inl e \<Rightarrow> Inl e
     | Inr loss \<Rightarrow>
         Inr (torch_mean
           (map2 (map2 (map2 (\<lambda>a b. map_option ((+) a) b)))
              (vol_add
                 (map (map (map (\<lambda>l. exp (- v0) * l + v0)))
                    (vol_mul loss (batch_boundary_weights R D S insts)))
                 (map (map (map (\<lambda>l. exp (- v1) * l + v1)))
                    (weight_rows loss (batch_roi_weights insts))))
              (map (map (map (map_option (\<lambda>l. exp (- v2) * l + v2))))
                 (weight_nan loss
                    (map (map (map quad)) (concat (map (image_overlap R S) insts))))))))"
    unfolding mask_rcnn_loss_def Let_def S_def [symmetric] sq' loop
    using b g
    by (simp add: and_then_def bw r o m selA selB [unfolded and_then_def] batch_targets_def
          del: One_nat_def)
  then show ?thesis unfolding S_def .
qed

text \<open>
  Claim C1. For every non-empty batch that meets the input contract, the loss returned by
  \<open>mask_rcnn_loss\<close> is the mean over all elements of
  \<open>exp (-v0) * L0 + v0 + exp (-v1) * L1 + v1 + exp (-v2) * L2 + v2\<close>, where \<open>L0\<close>, \<open>L1\<close> and
  \<open>L2\<close> are the binary cross-entropy of the logits against the targets weighted by the
  boundary, the duplicate-box and the overlap weights; the overlap weights are \<open>quad\<close> of
  the raw overlap counts and none of them is NaN.
\<close>

theorem training_loss_is_mean_of_combined_terms:
  assumes "training_inputs_ok t insts"
  shows "mask_rcnn_loss R D (v0, v1, v2) t insts =
           Inr (Some (spec_loss v0 v1 v2
                        (batch_logits t insts)
                        (batch_targets R (dim2 t) insts)
                        (batch_boundary_weights R D (dim2 t) insts)
                        (batch_roi_weights insts)
                        (batch_overlap_weights R (dim2 t) insts)
                        (dim0 t) (dim2 t))) \<and>
         map (map (map quad)) (concat (map (image_overlap R (dim2 t)) insts)) =
           map (map (map Some)) (batch_overlap_weights R (dim2 t) insts)"
proof -
  define N S where "N = dim0 t" and "S = dim2 t"
  define X Y W0 W1 W2 raw where "X = batch_logits t insts"
    and "Y = batch_targets R S insts"
    and "W0 = batch_boundary_weights R D S insts"
    and "W1 = batch_roi_weights insts"
    and "W2 = batch_overlap_weights R S insts"
    and "raw = concat (map (image_overlap R S) insts)"
  define x y w0 w1 w2 where "x = (\<lambda>n i j. X ! n ! i ! j)" and "y = (\<lambda>n i j. Y ! n ! i ! j)"
    and "w0 = (\<lambda>n i j. W0 ! n ! i ! j)" and "w1 = (\<lambda>n. W1 ! n)"
    and "w2 = (\<lambda>n i j. W2 ! n ! i ! j)"
  from assms have wf: "wf_tensor4 t" and sq: "dim2 t = dim3 t"
    and Npos: "0 < N" and Spos: "0 < S"
    and all: "list_all wf_training insts"
    and total: "sum_list (map the_len insts) = N"
    and cls: "dim1 t = 1 \<or>
       list_all (\<lambda>I. list_all (\<lambda>c. c < dim1 t) (the_ints I ''gt_classes'')) insts"
    by (simp_all add: training_inputs_ok_def N_def S_def)
  note bs = batch_shapes [OF all, unfolded total]
  have bound: "dim1 t = 1 \<or>
      (\<forall>c\<in>set (concat (map (\<lambda>I. the_ints I ''gt_classes'') insts)). c < dim1 t)"
    using cls by (auto simp: list_all_iff)
  have Xt: "X = tab3 N S x"
    unfolding X_def x_def N_def S_def
    using wf sq bs(4) [unfolded N_def] bound by (rule batch_logits_tab)
  have "is_tab (\<lambda>c. 0 \<le> c) N S Y"
    unfolding Y_def batch_targets_def using bs(1) by (rule to_float_is_tab)
  then have Yt: "Y = tab3 N S y"
    unfolding y_def by (rule is_tab_nth(1))
  have "length (batch_masks R S insts) = N"
    using bs(1) by (rule is_tab_length)
  then have W0t: "W0 = tab3 N S w0"
    unfolding W0_def w0_def batch_boundary_weights_def by (rule boundary_weights_tab)
  have "length W1 = N" unfolding W1_def by (rule bs(3))
  then have W1t: "W1 = map w1 [0..<N]"
    unfolding w1_def by (intro nth_equalityI) simp_all
  have rawt: "raw = tab3 N S (\<lambda>n i j. raw ! n ! i ! j)"
    and nn: "\<forall>n<N. \<forall>i<S. \<forall>j<S. 0 \<le> raw ! n ! i ! j"
    unfolding raw_def by (rule is_tab_nth [OF bs(2)])+
  have W2t: "W2 = tab3 N S (\<lambda>n i j. (1 + sqrt (1 + 8 * raw ! n ! i ! j)) / 2)"
    unfolding W2_def batch_overlap_weights_def raw_def [symmetric]
    by (subst rawt) (simp only: tab3_map)
  have W2t': "W2 = tab3 N S w2"
    unfolding w2_def by (subst (1) W2t, rule tab3_cong) (simp add: W2t tab3_nth)
  have Qt: "map (map (map quad)) raw = tab3 N S (\<lambda>n i j. Some (w2 n i j))"
    unfolding quad_tab [OF rawt nn]
    by (rule tab3_cong) (simp add: w2_def W2t tab3_nth)
  have Qs: "map (map (map quad)) raw = map (map (map Some)) W2"
    unfolding Qt by (subst W2t') (simp only: tab3_map)
  have run: "mask_rcnn_loss R D (v0, v1, v2) t insts =
    Inr (Some ((\<Sum>n<N. \<Sum>i<S. \<Sum>j<S.
                  (exp (- v0) * (bce_elem (x n i j) (y n i j) * w0 n i j) + v0
                   + (exp (- v1) * (bce_elem (x n i j) (y n i j) * w1 n) + v1)
                   + (exp (- v2) * (bce_elem (x n i j) (y n i j) * w2 n i j) + v2)))
                / real (N * S * S)))"
    unfolding mask_rcnn_loss_run [OF assms] S_def [symmetric] X_def [symmetric]
      Y_def [symmetric] W0_def [symmetric] W1_def [symmetric] raw_def [symmetric] Qt
    by (subst Xt, subst Yt, subst W0t, subst W1t) (rule combine_tabs [OF Npos Spos])
  have spec: "spec_loss v0 v1 v2 X Y W0 W1 W2 N S =
     (\<Sum>n<N. \<Sum>i<S. \<Sum>j<S.
                  (exp (- v0) * (bce_elem (x n i j) (y n i j) * w0 n i j) + v0
                   + (exp (- v1) * (bce_elem (x n i j) (y n i j) * w1 n) + v1)
                   + (exp (- v2) * (bce_elem (x n i j) (y n i j) * w2 n i j) + v2)))
                / real (N * S * S)"
    unfolding spec_loss_def Let_def x_def y_def w0_def w1_def w2_def
    by (simp add: mult.commute add.assoc)
  show ?thesis
    using run spec Qs
    unfolding X_def Y_def W0_def W1_def W2_def raw_def N_def S_def by simp
qed

theorem training_loss_is_mean_of_combined_terms_witness:
  "training_inputs_ok
     \<lparr>dim0 = 2, dim1 = 1, dim2 = 1, dim3 = 1, elems = [[[[0]]], [[[0]]]]\<rparr>
     [\<lparr>image_size = (2, 2),
       inst_fields = [(''proposal_boxes'', BoxField [(0, 0, 1, 1), (0, 0, 2, 2)]),
                      (''gt_classes'', IntField [0, 0]),
                      (''gt_boxes'', BoxField [(0, 0, 1, 1), (0, 0, 1, 1)]),
                      (''gt_masks'', PolyField [[[0, 0, 1, 0, 1, 1]], [[0, 0, 1, 0, 1, 1]]])]\<rparr>] \<and>
   mask_rcnn_loss (\<lambda>p b S i j. True) (\<lambda>m i j. m ! i ! j) (0, 0, 0)
     \<lparr>dim0 = 2, dim1 = 1, dim2 = 1, dim3 = 1, elems = [[[[0]]], [[[0]]]]\<rparr>
     [\<lparr>image_size = (2, 2),
       inst_fields = [(''proposal_boxes'', BoxField [(0, 0, 1, 1), (0, 0, 2, 2)]),
                      (''gt_classes'', IntField [0, 0]),
                      (''gt_boxes'', BoxField [(0, 0, 1, 1), (0, 0, 1, 1)]),
                      (''gt_masks'', PolyField [[[0, 0, 1, 0, 1, 1]], [[0, 0, 1, 0, 1, 1]]])]\<rparr>]
   = Inr (Some (7 * ln 2 / 2))"
proof -
  define t where "t = \<lparr>dim0 = 2, dim1 = 1, dim2 = 1, dim3 = 1, elems = [[[[0::real]]], [[[0]]]]\<rparr>"
  define I where "I = \<lparr>image_size = (2::nat, 2::nat),
       inst_fields = [(''proposal_boxes'', BoxField [(0, 0, 1, 1), (0, 0, 2, 2)]),
                      (''gt_classes'', IntField [0, 0]),
                      (''gt_boxes'', BoxField [(0, 0, 1, 1), (0, 0, 1, 1)]),
                      (''gt_masks'', PolyField [[[0, 0, 1, 0, 1, 1]], [[0, 0, 1, 0, 1, 1]]])]\<rparr>"
  define R :: rasterizer where "R = (\<lambda>p b S i j. True)"
  define D :: contour_filler where "D = (\<lambda>m i j. m ! i ! j)"
  have d: "dim0 t = 2" "dim1 t = 1" "dim2 t = 1" "dim3 t = 1" "elems t = [[[[0]]], [[[0]]]]"
    by (simp_all add: t_def)
  have f: "the_len I = 2"
    "the_ints I ''gt_classes'' = [0, 0]"
    "the_boxes I ''gt_boxes'' = [(0, 0, 1, 1), (0, 0, 1, 1)]"
    "the_boxes I ''proposal_boxes'' = [(0, 0, 1, 1), (0, 0, 2, 2)]"
    "the_polys I ''gt_masks'' = [[[0, 0, 1, 0, 1, 1]], [[0, 0, 1, 0, 1, 1]]]"
    by (simp_all add: I_def the_len_def len_instances_def the_ints_def get_ints_def
          the_boxes_def get_boxes_def the_polys_def get_polys_def)
  have wI: "wf_training I"
    unfolding wf_training_def f
    by (simp add: I_def wf_instances_def len_instances_def get_ints_def get_boxes_def
          get_polys_def)
  have ok: "training_inputs_ok t [I]"
    by (simp add: training_inputs_ok_def wf_tensor4_def d wI f)
  have u: "[0..<2] = [0, 1]" by (simp add: upt_rec)
  have X: "batch_logits t [I] = [[[0]], [[0]]]"
    by (simp add: batch_logits_def d u)
  have M: "batch_masks R (Suc 0) [I] = [[[True]], [[True]]]"
    by (simp add: batch_masks_def image_gt_masks_def f crop_and_resize_def R_def)
  have Y: "batch_targets R (Suc 0) [I] = [[[1]], [[1]]]"
    by (simp add: batch_targets_def M to_float_def)
  have bp: "bound_pixels D (Suc 0) [[True]] = [[0]]"
    by (simp add: bound_pixels_def Let_def background_def cv_dilate_def cv_erode_def
          astype_uint8_def window_values_def window_def D_def)
  have W0: "batch_boundary_weights R D (Suc 0) [I] = [[[1]], [[1]]]"
    by (simp add: batch_boundary_weights_def M bp boundary_where_def)
  have bb: "best_box (0, 0, 1, 1) [(0, 0, 1, 1), (0, 0, 2, 2)] = 0"
    by (simp add: best_box_def iou_unfold)
  have "img_roi_penalty 2 (replicate 2 (0, 0, 1, 1)) [(0, 0, 1, 1), (0, 0, 2, 2)]
          = Inr ((replicate 2 1)[best_box (0, 0, 1, 1) [(0, 0, 1, 1), (0, 0, 2, 2)] := real 2])"
    by (rule img_roi_penalty_single_box) simp_all
  then have W1: "batch_roi_weights [I] = [2, 1]"
    by (simp add: batch_roi_weights_def image_roi_def f bb numeral_2_eq_2)
  have ov: "image_overlap R (Suc 0) I = [[[0]], [[0]]]"
    by (simp add: image_overlap_def per_ins_overlap_masks_def and_then_def Let_def f
          image_gt_masks_def crop_and_resize_def R_def)
  have W2: "batch_overlap_weights R (Suc 0) [I] = [[[1]], [[1]]]"
    by (simp add: batch_overlap_weights_def ov)
  have b: "bce_elem 0 1 = ln 2"
    by (simp add: bce_elem_def)
  have s: "(\<Sum>n<2. g n) = g 0 + g 1" for g :: "nat \<Rightarrow> real"
    by (simp add: numeral_2_eq_2)
  have "spec_loss 0 0 0 [[[0]], [[0]]] [[[1]], [[1]]] [[[1]], [[1]]] [2, 1] [[[1]], [[1]]] 2 (Suc 0)
          = 7 * ln 2 / 2"
    by (simp add: spec_loss_def Let_def b s)
  with training_loss_is_mean_of_combined_terms [OF ok, of R D 0 0 0] ok
  have "training_inputs_ok t [I] \<and>
        mask_rcnn_loss R D (0, 0, 0) t [I] = Inr (Some (7 * ln 2 / 2))"
    by (simp add: d X Y W0 W1 W2)
  then show ?thesis unfolding t_def I_def R_def D_def .
qed

end
